theory Spec2Isabelle
  imports Complex_Main "HOL-Library.Word" "HOL-Library.Multiset" "HOL-Library.Log_Nat"
begin

text \<open>
  The notebook \<^verbatim>\<open>tf_classification_mnist\<close> is a sequence of cells that call TensorFlow
  Datasets, \<^verbatim>\<open>tf.data\<close>, Keras, NumPy and PIL. Each cell is embedded statement by
  statement. The library operations the cells call are functions of this theory that follow
  the documented behaviour of the libraries; where a call can raise, its result is a sum
  with the exception on the left.
\<close>

section \<open>Floating-point values\<close>

text \<open>
  The notebook computes on \<^verbatim>\<open>float32\<close> tensors and \<^verbatim>\<open>float64\<close> arrays. A value
  is a finite real or one of the IEEE special values. The special values are kept because
  the inference cell divides by a maximum that can be zero; the finite part of sums and
  products is taken exactly.
\<close>

datatype fl = Fin real | PInf | NInf | NaN

fun fadd :: "fl \<Rightarrow> fl \<Rightarrow> fl" where
  "fadd NaN _ = NaN"
| "fadd _ NaN = NaN"
| "fadd PInf NInf = NaN"
| "fadd NInf PInf = NaN"
| "fadd PInf _ = PInf"
| "fadd _ PInf = PInf"
| "fadd NInf _ = NInf"
| "fadd _ NInf = NInf"
| "fadd (Fin a) (Fin b) = Fin (a + b)"

fun fmul :: "fl \<Rightarrow> fl \<Rightarrow> fl" where
  "fmul NaN _ = NaN"
| "fmul _ NaN = NaN"
| "fmul (Fin a) (Fin b) = Fin (a * b)"
| "fmul (Fin a) PInf = (if a = 0 then NaN else if 0 < a then PInf else NInf)"
| "fmul (Fin a) NInf = (if a = 0 then NaN else if 0 < a then NInf else PInf)"
| "fmul PInf (Fin b) = (if b = 0 then NaN else if 0 < b then PInf else NInf)"
| "fmul NInf (Fin b) = (if b = 0 then NaN else if 0 < b then NInf else PInf)"
| "fmul PInf PInf = PInf"
| "fmul NInf NInf = PInf"
| "fmul PInf NInf = NInf"
| "fmul NInf PInf = NInf"

text \<open>The comparison \<^verbatim>\<open>a <= b\<close> of IEEE values: false as soon as one side is NaN.\<close>

fun fle :: "fl \<Rightarrow> fl \<Rightarrow> bool" where
  "fle NaN _ = False"
| "fle _ NaN = False"
| "fle NInf _ = True"
| "fle _ PInf = True"
| "fle PInf _ = False"
| "fle _ NInf = False"
| "fle (Fin a) (Fin b) = (a \<le> b)"

text \<open>The comparison \<^verbatim>\<open>a < b\<close>: also false as soon as one side is NaN.\<close>

definition flt :: "fl \<Rightarrow> fl \<Rightarrow> bool" where
  "flt a b = (fle a b \<and> \<not> fle b a)"

fun is_finite :: "fl \<Rightarrow> bool" where
  "is_finite (Fin _) = True"
| "is_finite _ = False"

text \<open>Left-to-right sum of a list of values, starting from zero.\<close>

definition fsum :: "fl list \<Rightarrow> fl" where
  "fsum xs = foldl fadd (Fin 0) xs"

subsection \<open>Rounding to \<^verbatim>\<open>float32\<close>\<close>

text \<open>
  Round to nearest, ties to even, on the integers.
\<close>

definition round_half_even :: "real \<Rightarrow> int" where
  "round_half_even x =
     (let f = \<lfloor>x\<rfloor>; d = x - of_int f
      in if d < 1 / 2 then f else if 1 / 2 < d then f + 1 else if even f then f else f + 1)"

text \<open>
  The IEEE binary32 value nearest to a real: 24 significant bits, smallest quantum
  \<open>2 ^ -149\<close>, overflow to infinity from \<open>2 ^ 128\<close> on. The magnitude is scaled by
  \<open>2 ^ 149\<close>, so that the quantum of a number with \<open>b\<close> bits before the point is
  \<open>2 ^ (b - 24)\<close> (and \<open>1\<close> in the subnormal range).
\<close>

definition f32_round :: "real \<Rightarrow> fl" where
  "f32_round x =
     (let m = \<bar>x\<bar> * 2 ^ 149;
          b = bitlen \<lfloor>m\<rfloor>;
          s = 2 ^ nat (max b 24 - 24);
          r = of_int (round_half_even (m / s)) * s / 2 ^ 149
      in if 2 ^ 128 \<le> r then (if 0 < x then PInf else NInf)
         else Fin (sgn x * r))"

section \<open>Loading the dataset\<close>

text \<open>
  A sample is an image of 8-bit intensities (the \<open>28 \<times> 28 \<times> 1\<close> tensor in row-major
  order) with its integer label.
\<close>

type_synonym image = "8 word list"
type_synonym sample = "image \<times> nat"

text \<open>The exceptions the library calls of the notebook can raise.\<close>

datatype py_error =
    DatasetUnavailable
  | FileNotFoundError
  | ValueError
  | InvalidArgumentError

text \<open>
  A \<^verbatim>\<open>tf.data.Dataset\<close> is a chain of dataset objects, each wrapping the one it was
  built from. The model keeps the elements one pass over the dataset yields and the chain
  of transformations that were applied, innermost first.
\<close>

datatype ds_op = MapOp | CacheOp | ShuffleOp nat | BatchOp nat | PrefetchOp

record 'a dataset =
  elements :: "'a list"
  transformations :: "ds_op list"

record ds_info =
  train_num_examples :: nat
  test_num_examples :: nat

text \<open>
  \<^verbatim>\<open>tfds.load('mnist', split=['train', 'test'], as_supervised=True, with_info=True)\<close>.
  The environment is a function from the number of the fetch attempt to its outcome; the
  cell makes one call, attempt \<open>0\<close>, and an exception of that call is not caught.
\<close>

definition tfds_load ::
  "(nat \<Rightarrow> py_error + (sample list \<times> sample list))
    \<Rightarrow> py_error + ((sample dataset \<times> sample dataset) \<times> ds_info)" where
  "tfds_load fetch =
     (case fetch 0 of
        Inl e \<Rightarrow> Inl e
      | Inr (tr, te) \<Rightarrow>
          Inr ((\<lparr>elements = tr, transformations = []\<rparr>,
                \<lparr>elements = te, transformations = []\<rparr>),
               \<lparr>train_num_examples = length tr, test_num_examples = length te\<rparr>))"

section \<open>The preprocessing pipeline\<close>

text \<open>
  \<^verbatim>\<open>tf.cast(image, tf.float32) / 255.\<close>: the cast of an 8-bit integer is exact, the
  quotient is rounded to \<^verbatim>\<open>float32\<close>.
\<close>

definition normalize_pixel :: "8 word \<Rightarrow> fl" where
  "normalize_pixel p = f32_round (real (unat p) / 255)"

fun normalize_img :: "sample \<Rightarrow> fl list \<times> nat" where
  "normalize_img (img, label) = (map normalize_pixel img, label)"






text \<open>
  \<^verbatim>\<open>Dataset.batch(batch_size)\<close> with the default \<^verbatim>\<open>drop_remainder=False\<close>:
  consecutive elements are grouped, the last group holds what is left.
\<close>

function batch_elements :: "nat \<Rightarrow> 'a list \<Rightarrow> 'a list list" where
  "batch_elements n xs =
     (if n = 0 \<or> xs = [] then [] else take n xs # batch_elements n (drop n xs))"
  by pat_completeness auto
termination
  by (relation "measure (\<lambda>(n, xs). length xs)") auto






section \<open>The model\<close>

text \<open>
  The layers of \<^verbatim>\<open>tf.keras.layers\<close> the notebook uses, each with the arguments the
  notebook passes and the weights the layer owns. A convolution kernel is indexed by row
  offset, column offset, input channel and filter; a dense kernel by input and unit.
\<close>

datatype activation = Relu | Linear

datatype padding = Same | Valid

datatype layer =
    Conv2D nat nat padding activation "nat \<Rightarrow> nat \<Rightarrow> nat \<Rightarrow> nat \<Rightarrow> fl" "nat \<Rightarrow> fl"
  | Flatten
  | Dense nat activation "nat \<Rightarrow> nat \<Rightarrow> fl" "nat \<Rightarrow> fl"

text \<open>A tensor without its batch dimension: the shape and the values in row-major order.\<close>

record tensor =
  shape :: "nat list"
  vals :: "fl list"

text \<open>\<^verbatim>\<open>relu\<close> is the maximum with zero and propagates NaN.\<close>

fun relu :: "fl \<Rightarrow> fl" where
  "relu NaN = NaN"
| "relu PInf = PInf"
| "relu NInf = Fin 0"
| "relu (Fin a) = Fin (max a 0)"

fun activate :: "activation \<Rightarrow> fl \<Rightarrow> fl" where
  "activate Relu x = relu x"
| "activate Linear x = x"

text \<open>
  The entry of an \<open>h \<times> w \<times> c\<close> tensor at a row and column that may lie in the zero
  padding.
\<close>

definition pixel_at :: "nat \<Rightarrow> nat \<Rightarrow> nat \<Rightarrow> fl list \<Rightarrow> int \<Rightarrow> int \<Rightarrow> nat \<Rightarrow> fl" where
  "pixel_at h w c xs i j ci =
     (if 0 \<le> i \<and> i < int h \<and> 0 \<le> j \<and> j < int w
      then xs ! ((nat i * w + nat j) * c + ci)
      else Fin 0)"

text \<open>
  One output entry of a stride-1 convolution: the window starts \<open>pb\<close> rows and columns
  before the output position; bias and activation follow the sum.
\<close>

definition conv_entry ::
  "nat \<Rightarrow> activation \<Rightarrow> (nat \<Rightarrow> nat \<Rightarrow> nat \<Rightarrow> nat \<Rightarrow> fl) \<Rightarrow> (nat \<Rightarrow> fl) \<Rightarrow> nat \<Rightarrow>
     nat \<Rightarrow> nat \<Rightarrow> nat \<Rightarrow> fl list \<Rightarrow> nat \<Rightarrow> nat \<Rightarrow> nat \<Rightarrow> fl" where
  "conv_entry k a K B pb h w c xs i j f =
     activate a
       (fadd
          (fsum [fmul (pixel_at h w c xs (int i + int di - int pb) (int j + int dj - int pb) ci)
                      (K di dj ci f).
                 di \<leftarrow> [0..<k], dj \<leftarrow> [0..<k], ci \<leftarrow> [0..<c]])
          (B f))"

definition dense_entry ::
  "activation \<Rightarrow> (nat \<Rightarrow> nat \<Rightarrow> fl) \<Rightarrow> (nat \<Rightarrow> fl) \<Rightarrow> nat \<Rightarrow> fl list \<Rightarrow> nat \<Rightarrow> fl" where
  "dense_entry a W B n xs u =
     activate a (fadd (fsum [fmul (xs ! i) (W i u). i \<leftarrow> [0..<n]]) (B u))"

text \<open>
  What a layer computes on one example. With \<^verbatim>\<open>padding='same'\<close> and stride 1 the
  output keeps the height and width, and of the \<open>k - 1\<close> padded rows \<open>(k - 1) div 2\<close>
  come first. A dense layer acts on the last axis.
\<close>

fun apply_layer :: "layer \<Rightarrow> tensor \<Rightarrow> py_error + tensor" where
  "apply_layer (Conv2D k f Same a K B) t =
     (case shape t of
        [h, w, c] \<Rightarrow>
          Inr \<lparr>shape = [h, w, f],
               vals = [conv_entry k a K B ((k - 1) div 2) h w c (vals t) i j fi.
                       i \<leftarrow> [0..<h], j \<leftarrow> [0..<w], fi \<leftarrow> [0..<f]]\<rparr>
      | _ \<Rightarrow> Inl ValueError)"
| "apply_layer (Conv2D k f Valid a K B) t =
     (case shape t of
        [h, w, c] \<Rightarrow>
          if h < k \<or> w < k then Inl ValueError
          else Inr \<lparr>shape = [h - k + 1, w - k + 1, f],
                    vals = [conv_entry k a K B 0 h w c (vals t) i j fi.
                            i \<leftarrow> [0..<h - k + 1], j \<leftarrow> [0..<w - k + 1], fi \<leftarrow> [0..<f]]\<rparr>
      | _ \<Rightarrow> Inl ValueError)"
| "apply_layer Flatten t = Inr \<lparr>shape = [prod_list (shape t)], vals = vals t\<rparr>"
| "apply_layer (Dense u a W B) t =
     (if shape t = [] then Inl ValueError
      else let n = last (shape t); rows = prod_list (butlast (shape t))
           in Inr \<lparr>shape = butlast (shape t) @ [u],
                   vals = [dense_entry a W B n (take n (drop (r * n) (vals t))) ui.
                           r \<leftarrow> [0..<rows], ui \<leftarrow> [0..<u]]\<rparr>)"

text \<open>\<^verbatim>\<open>tf.keras.models.Sequential\<close>: the layers are applied in order.\<close>

fun sequential :: "layer list \<Rightarrow> tensor \<Rightarrow> py_error + tensor" where
  "sequential [] t = Inr t"
| "sequential (l # ls) t =
     (case apply_layer l t of Inl e \<Rightarrow> Inl e | Inr t' \<Rightarrow> sequential ls t')"

text \<open>The weights of the model: the Model Parameters.\<close>

record weights =
  conv_kernel :: "nat \<Rightarrow> nat \<Rightarrow> nat \<Rightarrow> nat \<Rightarrow> fl"
  conv_bias :: "nat \<Rightarrow> fl"
  dense1_kernel :: "nat \<Rightarrow> nat \<Rightarrow> fl"
  dense1_bias :: "nat \<Rightarrow> fl"
  dense2_kernel :: "nat \<Rightarrow> nat \<Rightarrow> fl"
  dense2_bias :: "nat \<Rightarrow> fl"

text \<open>Weights with zero kernels, for examples.\<close>

definition zero_weights :: weights where
  "zero_weights =
     \<lparr>conv_kernel = (\<lambda>di dj ci f. Fin 0), conv_bias = (\<lambda>f. Fin 0),
      dense1_kernel = (\<lambda>i u. Fin 0), dense1_bias = (\<lambda>u. Fin 0),
      dense2_kernel = (\<lambda>i u. Fin 0), dense2_bias = (\<lambda>u. Fin (real u))\<rparr>"

definition input_shape :: "nat list" where
  "input_shape = [28, 28, 1]"

text \<open>
  The list of layers the notebook passes to \<^verbatim>\<open>Sequential\<close>:
  \<^verbatim>\<open>Conv2D(kernel_size=4, filters=3, input_shape=(28, 28, 1), activation='relu',
  padding='same')\<close>, \<^verbatim>\<open>Flatten(input_shape=(28, 28, 1))\<close>,
  \<^verbatim>\<open>Dense(64, activation='relu')\<close>, \<^verbatim>\<open>Dense(10)\<close>.
\<close>

definition model_layers :: "weights \<Rightarrow> layer list" where
  "model_layers W =
     [Conv2D 4 3 Same Relu (conv_kernel W) (conv_bias W),
      Flatten,
      Dense 64 Relu (dense1_kernel W) (dense1_bias W),
      Dense 10 Linear (dense2_kernel W) (dense2_bias W)]"

text \<open>
  How the model fits the rank of an input to the rank it was built for: an input of the
  same rank is kept, a last axis of length 1 too many is dropped, and a last axis of
  length 1 that is missing is added; any other rank is refused.
\<close>

definition adjust_input_rank :: "nat list \<Rightarrow> nat list \<Rightarrow> py_error + nat list" where
  "adjust_input_rank ref s =
     (if length s = length ref then Inr s
      else if length s = length ref + 1 \<and> last s = 1 then Inr (butlast s)
      else if length s + 1 = length ref \<and> last ref = 1 then Inr (s @ [1])
      else Inl ValueError)"

text \<open>
  The model is built for \<^verbatim>\<open>input_shape=(28, 28, 1)\<close>, which fixes the sizes of its
  kernels. An example whose adjusted shape is another one is refused by the input
  specification of the model or of one of its layers.
\<close>

definition standardize_input :: "tensor \<Rightarrow> py_error + tensor" where
  "standardize_input t =
     (case adjust_input_rank input_shape (shape t) of
        Inl e \<Rightarrow> Inl e
      | Inr s \<Rightarrow> if s = input_shape then Inr \<lparr>shape = s, vals = vals t\<rparr> else Inl ValueError)"

text \<open>The forward pass on one example.\<close>

definition forward :: "weights \<Rightarrow> tensor \<Rightarrow> py_error + fl list" where
  "forward W t =
     (case standardize_input t of
        Inl e \<Rightarrow> Inl e
      | Inr t' \<Rightarrow>
          (case sequential (model_layers W) t' of
             Inl e \<Rightarrow> Inl e
           | Inr y \<Rightarrow> Inr (vals y)))"

text \<open>An array with its batch dimension first, as \<^verbatim>\<open>numpy\<close> holds it.\<close>

record 'a ndarray =
  dims :: "nat list"
  entries :: "'a list"

text \<open>The examples of a batch: the array cut along its first axis.\<close>

definition examples :: "fl ndarray \<Rightarrow> tensor list" where
  "examples a =
     (let n = prod_list (tl (dims a))
      in [\<lparr>shape = tl (dims a), vals = take n (drop (i * n) (entries a))\<rparr>.
          i \<leftarrow> [0..<hd (dims a)]])"

fun forward_all :: "weights \<Rightarrow> tensor list \<Rightarrow> py_error + fl list list" where
  "forward_all W [] = Inr []"
| "forward_all W (t # ts) =
     (case forward W t of
        Inl e \<Rightarrow> Inl e
      | Inr y \<Rightarrow> (case forward_all W ts of Inl e \<Rightarrow> Inl e | Inr ys \<Rightarrow> Inr (y # ys)))"

text \<open>\<^verbatim>\<open>model(x)\<close>: the forward pass on the whole batch at once.\<close>

definition model_call :: "weights \<Rightarrow> fl ndarray \<Rightarrow> py_error + fl list list" where
  "model_call W a =
     (if dims a = [] then Inl ValueError
      else case adjust_input_rank input_shape (tl (dims a)) of
             Inl e \<Rightarrow> Inl e
           | Inr s \<Rightarrow> if s = input_shape then forward_all W (examples a) else Inl ValueError)"

text \<open>
  \<^verbatim>\<open>model.predict(x)\<close> with the default \<^verbatim>\<open>batch_size=32\<close>: the examples are
  processed in batches of 32 and the outputs concatenated; an input without examples
  raises. Within the exact arithmetic of this theory the outputs of a batch are those of
  its examples.
\<close>

fun predict_batches :: "weights \<Rightarrow> tensor list list \<Rightarrow> py_error + fl list list" where
  "predict_batches W [] = Inr []"
| "predict_batches W (b # bs) =
     (case forward_all W b of
        Inl e \<Rightarrow> Inl e
      | Inr ys \<Rightarrow> (case predict_batches W bs of Inl e \<Rightarrow> Inl e | Inr zs \<Rightarrow> Inr (ys @ zs)))"

definition model_predict :: "weights \<Rightarrow> fl ndarray \<Rightarrow> py_error + fl list list" where
  "model_predict W a =
     (if dims a = [] \<or> examples a = [] then Inl ValueError
      else predict_batches W (batch_elements 32 (examples a)))"

section \<open>Compiling the model\<close>

text \<open>
  The arguments of \<^verbatim>\<open>model.compile\<close>: \<^verbatim>\<open>optimizer=Adam(0.001)\<close>,
  \<^verbatim>\<open>loss=SparseCategoricalCrossentropy(from_logits=True)\<close>,
  \<^verbatim>\<open>metrics=[SparseCategoricalAccuracy()]\<close>.
\<close>

datatype optimizer = Adam real

datatype loss = SparseCategoricalCrossentropy bool

datatype metric = SparseCategoricalAccuracy

record compile_args =
  optimizer :: optimizer
  loss :: loss
  metrics :: "metric list"

definition model_compile :: compile_args where
  "model_compile =
     \<lparr>optimizer = Adam (1 / 1000),
      loss = SparseCategoricalCrossentropy True,
      metrics = [SparseCategoricalAccuracy]\<rparr>"

fun learning_rate :: "optimizer \<Rightarrow> real" where
  "learning_rate (Adam lr) = lr"

text \<open>The class probabilities a logit vector stands for.\<close>

definition softmax :: "real list \<Rightarrow> real list" where
  "softmax z = map (\<lambda>x. exp x / sum_list (map exp z)) z"

text \<open>
  The loss of one example with integer label \<open>y\<close>. With \<^verbatim>\<open>from_logits=True\<close> the
  prediction is a logit vector and the loss is the log of the sum of the exponentials less
  the logit of the label. Otherwise the prediction is read as probabilities, which are
  clipped to \<open>[10\<^sup>-\<^sup>7, 1 - 10\<^sup>-\<^sup>7]\<close> and renormalized.
\<close>

definition clip_probability :: "real \<Rightarrow> real" where
  "clip_probability p = min (max p (1 / 10 ^ 7)) (1 - 1 / 10 ^ 7)"

fun loss_value :: "loss \<Rightarrow> nat \<Rightarrow> real list \<Rightarrow> real" where
  "loss_value (SparseCategoricalCrossentropy from_logits) y pred =
     (if from_logits then ln (sum_list (map exp pred)) - pred ! y
      else ln (sum_list (map clip_probability pred)) - ln (clip_probability (pred ! y)))"

text \<open>
  \<^verbatim>\<open>np.argmax\<close> on a vector: the index of the first maximum; a NaN counts as the
  maximum. The loop keeps the running maximum \<open>mp\<close> and its index.
\<close>

fun argmax_loop :: "fl \<Rightarrow> nat \<Rightarrow> nat \<Rightarrow> fl list \<Rightarrow> nat" where
  "argmax_loop mp max_ind i [] = max_ind"
| "argmax_loop mp max_ind i (x # xs) =
     (if \<not> fle x mp
      then (if x = NaN then i else argmax_loop x i (Suc i) xs)
      else argmax_loop mp max_ind (Suc i) xs)"

fun np_argmax :: "fl list \<Rightarrow> py_error + nat" where
  "np_argmax [] = Inl ValueError"
| "np_argmax (x # xs) = Inr (if x = NaN then 0 else argmax_loop x 0 1 xs)"

text \<open>
  \<^verbatim>\<open>tf.argmax\<close> on a vector, which the accuracy metric uses. The reduction starts from
  index 0 with the lowest finite \<^verbatim>\<open>float32\<close> value; an entry below the running value
  is passed over, and an entry replaces it when it is greater or has a smaller index. A
  NaN is neither below nor greater, so it never replaces the running value.
\<close>

definition f32_lowest :: real where
  "f32_lowest = - (2 ^ 128 - 2 ^ 104)"

fun tf_argmax_loop :: "nat \<Rightarrow> fl \<Rightarrow> nat \<Rightarrow> fl list \<Rightarrow> nat" where
  "tf_argmax_loop ai av i [] = ai"
| "tf_argmax_loop ai av i (v # vs) =
     (if flt v av then tf_argmax_loop ai av (Suc i) vs
      else if flt av v \<or> i < ai then tf_argmax_loop i v (Suc i) vs
      else tf_argmax_loop ai av (Suc i) vs)"

definition tf_argmax :: "fl list \<Rightarrow> py_error + nat" where
  "tf_argmax xs =
     (if xs = [] then Inl InvalidArgumentError
      else Inr (tf_argmax_loop 0 (Fin f32_lowest) 0 xs))"

text \<open>The metric of one example: 1 when the argmax of the prediction is the label.\<close>

fun metric_value :: "metric \<Rightarrow> nat \<Rightarrow> fl list \<Rightarrow> real" where
  "metric_value SparseCategoricalAccuracy y pred = (if tf_argmax pred = Inr y then 1 else 0)"

section \<open>Training\<close>

text \<open>
  The arguments of \<^verbatim>\<open>tf.keras.callbacks.EarlyStopping\<close>: \<^verbatim>\<open>patience=5\<close>,
  \<^verbatim>\<open>min_delta=0.001\<close>, \<^verbatim>\<open>restore_best_weights=True\<close>. The monitored quantity is
  the default, the validation loss, to be minimized.
\<close>

record early_stopping_args =
  patience :: nat
  min_delta :: real
  restore_best_weights :: bool

definition early_stopping :: early_stopping_args where
  "early_stopping = \<lparr>patience = 5, min_delta = 1 / 1000, restore_best_weights = True\<rparr>"

definition epochs :: nat where
  "epochs = 100"

text \<open>
  The state of a run of \<^verbatim>\<open>model.fit\<close>: the weights of the model, the rest of the
  training state (optimizer variables, random state), the history of validation losses,
  and the fields of the callback. A validation loss is a floating-point value and can be
  NaN or infinite. The best value starts at infinity.
\<close>

record ('w, 'o) fit_state =
  model_weights :: 'w
  other_state :: 'o
  history :: "fl list"
  wait :: nat
  best :: fl
  best_weights :: "'w option"
  stopped_epoch :: nat
  stop_training :: bool

text \<open>
  \<^verbatim>\<open>_is_improvement\<close>: the monitored value, raised by \<^verbatim>\<open>min_delta\<close>, is less than the
  reference.
\<close>

definition is_improvement :: "early_stopping_args \<Rightarrow> fl \<Rightarrow> fl \<Rightarrow> bool" where
  "is_improvement cb current reference = flt (fadd current (Fin \<bar>min_delta cb\<bar>)) reference"

text \<open>
  \<^verbatim>\<open>EarlyStopping.on_epoch_end\<close>, statement by statement: the best weights are
  initialized after the first epoch, the counter is incremented, an improvement stores the
  value and the weights and resets the counter, and otherwise the run is stopped when the
  counter has reached the patience after the first epoch.
\<close>

definition on_epoch_end ::
  "early_stopping_args \<Rightarrow> nat \<Rightarrow> fl \<Rightarrow> ('w, 'o) fit_state \<Rightarrow> ('w, 'o) fit_state" where
  "on_epoch_end cb epoch current st =
     (let st1 = (if restore_best_weights cb \<and> best_weights st = None
                 then st\<lparr>best_weights := Some (model_weights st)\<rparr> else st);
          st2 = st1\<lparr>wait := wait st1 + 1\<rparr>
      in if is_improvement cb current (best st2)
         then st2\<lparr>best := current,
                  best_weights :=
                    (if restore_best_weights cb then Some (model_weights st2)
                     else best_weights st2),
                  wait := 0\<rparr>
         else if patience cb \<le> wait st2 \<and> 0 < epoch
         then st2\<lparr>stopped_epoch := epoch, stop_training := True\<rparr>
         else st2)"

text \<open>
  \<^verbatim>\<open>EarlyStopping.on_train_end\<close>: the best weights are put back into the model, whether
  the run was stopped early or reached its last epoch.
\<close>

definition on_train_end :: "early_stopping_args \<Rightarrow> ('w, 'o) fit_state \<Rightarrow> ('w, 'o) fit_state" where
  "on_train_end cb st =
     (if restore_best_weights cb
      then (case best_weights st of Some w \<Rightarrow> st\<lparr>model_weights := w\<rparr> | None \<Rightarrow> st)
      else st)"

text \<open>
  The epoch loop of \<^verbatim>\<open>model.fit\<close>: one pass over the training batches, the evaluation
  on the validation data, the callback, and the test of \<^verbatim>\<open>stop_training\<close>. The pass
  over the batches and the evaluation are parameters: \<open>train_epoch\<close> maps the number of
  the epoch and the training state to the new state, \<open>val_loss\<close> gives the validation
  loss of the weights. The first argument counts the epochs that are left.
\<close>

fun fit_loop ::
  "early_stopping_args \<Rightarrow> (nat \<Rightarrow> 'w \<times> 'o \<Rightarrow> 'w \<times> 'o) \<Rightarrow> ('w \<Rightarrow> fl) \<Rightarrow> nat \<Rightarrow> nat \<Rightarrow>
     ('w, 'o) fit_state \<Rightarrow> ('w, 'o) fit_state" where
  "fit_loop cb train_epoch val_loss 0 epoch st = st"
| "fit_loop cb train_epoch val_loss (Suc n) epoch st =
     (let (w, opt) = train_epoch epoch (model_weights st, other_state st);
          v = val_loss w;
          st1 = st\<lparr>model_weights := w, other_state := opt, history := history st @ [v]\<rparr>;
          st2 = on_epoch_end cb epoch v st1
      in if stop_training st2 then st2
         else fit_loop cb train_epoch val_loss n (Suc epoch) st2)"

definition initial_state :: "'w \<Rightarrow> 'o \<Rightarrow> ('w, 'o) fit_state" where
  "initial_state w opt =
     \<lparr>model_weights = w, other_state = opt, history = [], wait = 0, best = PInf,
      best_weights = None, stopped_epoch = 0, stop_training = False\<rparr>"

text \<open>The training cell: \<^verbatim>\<open>model.fit(ds_train, epochs=100, validation_data=ds_test,
  callbacks=[early_stopping])\<close>.\<close>

definition model_fit ::
  "(nat \<Rightarrow> 'w \<times> 'o \<Rightarrow> 'w \<times> 'o) \<Rightarrow> ('w \<Rightarrow> fl) \<Rightarrow> 'w \<Rightarrow> 'o \<Rightarrow> ('w, 'o) fit_state" where
  "model_fit train_epoch val_loss w opt =
     on_train_end early_stopping
       (fit_loop early_stopping train_epoch val_loss epochs 0 (initial_state w opt))"

text \<open>
  The monitor on a sequence of validation losses: the best value so far, where a value
  replaces the best only when it is lower by more than \<^verbatim>\<open>min_delta\<close>, and the number
  of epochs since the best was last replaced.
\<close>

fun monitor_step :: "early_stopping_args \<Rightarrow> fl \<times> nat \<Rightarrow> fl \<Rightarrow> fl \<times> nat" where
  "monitor_step cb (b, n) v = (if is_improvement cb v b then (v, 0) else (b, Suc n))"

definition monitor :: "early_stopping_args \<Rightarrow> fl list \<Rightarrow> fl \<times> nat" where
  "monitor cb vs = foldl (monitor_step cb) (PInf, 0) vs"

text \<open>
  The invariant of the epoch loop: the callback's best value and counter are those of the
  monitor on the history; the best weights are stored from the first epoch on, and they
  are the weights of the epoch that lies as many epochs back as the counter says (the
  first epoch when no epoch has improved on infinity); the run is stopped exactly when the
  counter has reached the patience; no earlier prefix of the history has reached the
  patience.
\<close>

definition fit_inv :: "('w \<Rightarrow> fl) \<Rightarrow> ('w, 'o) fit_state \<Rightarrow> bool" where
  "fit_inv val_loss st \<longleftrightarrow>
     (best st, wait st) = monitor early_stopping (history st)
   \<and> (case best_weights st of
        None \<Rightarrow> history st = []
      | Some w \<Rightarrow> history st \<noteq> []
          \<and> val_loss w = history st ! (length (history st) - 1 - wait st))
   \<and> (stop_training st \<longleftrightarrow> 5 \<le> wait st)
   \<and> (\<forall>k. 0 < k \<and> k < length (history st) \<longrightarrow>
          snd (monitor early_stopping (take k (history st))) < 5)"

text \<open>
  Runs for examples. In the first every epoch adds one to the weights, and the validation
  loss is 1 after the first epoch, 0.9995 after the second and 2 from then on. In the
  second the validation loss is NaN throughout. In the third it falls by 1 in every epoch.
\<close>

definition plateau_train :: "nat \<Rightarrow> nat \<times> unit \<Rightarrow> nat \<times> unit" where
  "plateau_train epoch s = (Suc (fst s), snd s)"

definition plateau_val_loss :: "nat \<Rightarrow> fl" where
  "plateau_val_loss w =
     (if w = 1 then Fin 1 else if w = 2 then Fin (9995 / 10000) else Fin 2)"

definition nan_val_loss :: "nat \<Rightarrow> fl" where
  "nan_val_loss w = NaN"

definition descending_val_loss :: "nat \<Rightarrow> fl" where
  "descending_val_loss w = Fin (- real w)"

section \<open>Inference\<close>

text \<open>
  The image \<^verbatim>\<open>PIL.Image.open(path).convert("L")\<close> yields: its size and the 8-bit
  intensity at column \<open>x\<close> and row \<open>y\<close>.
\<close>

record pil_image =
  width :: nat
  height :: nat
  getpixel :: "nat \<Rightarrow> nat \<Rightarrow> 8 word"

text \<open>\<^verbatim>\<open>np.array(img)\<close>: rows first.\<close>

definition np_array :: "pil_image \<Rightarrow> 8 word ndarray" where
  "np_array img =
     \<lparr>dims = [height img, width img],
      entries = [getpixel img x y. y \<leftarrow> [0..<height img], x \<leftarrow> [0..<width img]]\<rparr>"

text \<open>\<^verbatim>\<open>reshape\<close> keeps the entries and raises when the sizes differ.\<close>

definition np_reshape :: "nat list \<Rightarrow> 'a ndarray \<Rightarrow> py_error + 'a ndarray" where
  "np_reshape new_dims a =
     (if prod_list new_dims = prod_list (dims a)
      then Inr \<lparr>dims = new_dims, entries = entries a\<rparr>
      else Inl ValueError)"

fun np_max :: "8 word list \<Rightarrow> py_error + 8 word" where
  "np_max [] = Inl ValueError"
| "np_max (x # xs) = Inr (foldl max x xs)"

text \<open>
  The true division of two 8-bit integers, as \<^verbatim>\<open>numpy\<close> computes it in floating
  point: a zero divisor gives NaN for a zero dividend and infinity otherwise, with a
  warning and no exception.
\<close>

definition true_divide :: "8 word \<Rightarrow> 8 word \<Rightarrow> fl" where
  "true_divide p m =
     (if m = 0 then (if p = 0 then NaN else PInf)
      else Fin (real (unat p) / real (unat m)))"

definition user_image :: string where
  "user_image = ''tf_classification_user.png''"

text \<open>What the inference cell prints.\<close>

record cell_output =
  printed_logits :: "fl list list"
  printed_prediction :: nat

text \<open>
  The inference cell, statement by statement:
  \<^verbatim>\<open>img = PIL.Image.open("tf_classification_user.png").convert("L")\<close>,
  \<^verbatim>\<open>imgarr = np.array(img).reshape((1,28,28,1))\<close>,
  \<^verbatim>\<open>imgarr = imgarr / np.max(imgarr)\<close>,
  \<^verbatim>\<open>print(model.predict(imgarr))\<close>,
  \<^verbatim>\<open>print(f"prediction: {np.argmax(model(imgarr))}")\<close>.
  The file system maps a path to the image stored there, if any.
\<close>

definition inference_cell :: "(string \<Rightarrow> pil_image option) \<Rightarrow> weights \<Rightarrow> py_error + cell_output" where
  "inference_cell files W =
     (case files user_image of
        None \<Rightarrow> Inl FileNotFoundError
      | Some img \<Rightarrow>
          (case np_reshape [1, 28, 28, 1] (np_array img) of
             Inl e \<Rightarrow> Inl e
           | Inr imgarr \<Rightarrow>
               (case np_max (entries imgarr) of
                  Inl e \<Rightarrow> Inl e
                | Inr m \<Rightarrow>
                    let imgarr' = \<lparr>dims = dims imgarr,
                                   entries = map (\<lambda>p. true_divide p m) (entries imgarr)\<rparr>
                    in (case model_predict W imgarr' of
                          Inl e \<Rightarrow> Inl e
                        | Inr printed \<Rightarrow>
                            (case model_call W imgarr' of
                               Inl e \<Rightarrow> Inl e
                             | Inr logits \<Rightarrow>
                                 (case np_argmax (concat logits) of
                                    Inl e \<Rightarrow> Inl e
                                  | Inr d \<Rightarrow>
                                      Inr \<lparr>printed_logits = printed,
                                           printed_prediction = d\<rparr>))))))"

text \<open>
  What the index \<open>d\<close> is for a vector \<open>L\<close> when it is the argmax as the library defines
  it: the position of the first NaN if there is one, and otherwise the first position
  whose value no other exceeds.
\<close>

definition first_max :: "fl list \<Rightarrow> nat \<Rightarrow> bool" where
  "first_max L d =
     (d < length L \<and>
      (if NaN \<in> set L then L ! d = NaN \<and> NaN \<notin> set (take d L)
       else list_all (\<lambda>x. fle x (L ! d)) L \<and> list_all (\<lambda>x. \<not> fle (L ! d) x) (take d L)))"

text \<open>A black image of 28 by 28 pixels, stored under the path the cell reads.\<close>

definition zero_image :: pil_image where
  "zero_image = \<lparr>width = 28, height = 28, getpixel = (\<lambda>x y. 0)\<rparr>"

definition zero_image_files :: "string \<Rightarrow> pil_image option" where
  "zero_image_files path = (if path = user_image then Some zero_image else None)"

text \<open>A uniformly grey image of 28 by 28 pixels, and images of other sizes.\<close>

definition gray_image :: pil_image where
  "gray_image = \<lparr>width = 28, height = 28, getpixel = (\<lambda>x y. 51)\<rparr>"

definition gray_files :: "string \<Rightarrow> pil_image option" where
  "gray_files path = (if path = user_image then Some gray_image else None)"

definition wide_image :: pil_image where
  "wide_image = \<lparr>width = 32, height = 28, getpixel = (\<lambda>x y. 51)\<rparr>"

text \<open>Environments in which a cell fails.\<close>

definition failing_fetch :: "nat \<Rightarrow> py_error + (sample list \<times> sample list)" where
  "failing_fetch n = (if n = 0 then Inl DatasetUnavailable else Inr ([], []))"

definition no_files :: "string \<Rightarrow> pil_image option" where
  "no_files path = None"

definition wide_files :: "string \<Rightarrow> pil_image option" where
  "wide_files path = (if path = user_image then Some wide_image else None)"

section \<open>Properties of the preprocessing pipeline\<close>

subsection \<open>Rounding\<close>

lemma round_half_even_le:
  assumes "x \<le> of_int N"
  shows "round_half_even x \<le> N"
proof -
  have fl: "\<lfloor>x\<rfloor> \<le> N" using assms by (simp add: floor_le_iff) 
  show ?thesis
  proof (cases "x - of_int \<lfloor>x\<rfloor> < 1 / 2")
    case True
    then show ?thesis using fl by (simp add: round_half_even_def Let_def)
  next
    case False
    then have "of_int \<lfloor>x\<rfloor> < x" by linarith
    then have "of_int \<lfloor>x\<rfloor> < (of_int N :: real)" using assms by linarith
    then have "\<lfloor>x\<rfloor> + 1 \<le> N" by simp
    then show ?thesis using fl by (simp add: round_half_even_def Let_def)
  qed
qed

lemma round_half_even_nonneg:
  assumes "0 \<le> x"
  shows "0 \<le> round_half_even x"
proof -
  have "0 \<le> \<lfloor>x\<rfloor>" using assms by simp
  then show ?thesis by (simp add: round_half_even_def Let_def)
qed

lemma round_half_even_close: "\<bar>of_int (round_half_even x) - x\<bar> \<le> 1 / 2"
proof -
  have "of_int \<lfloor>x\<rfloor> \<le> x" "x < of_int \<lfloor>x\<rfloor> + 1" by linarith+
  then show ?thesis
    by (auto simp: round_half_even_def Let_def)
qed

lemma f32_round_unit:
  assumes "0 \<le> x" "x \<le> 1"
  shows "\<exists>v. f32_round x = Fin v \<and> 0 \<le> v \<and> v \<le> 1 \<and> \<bar>v - x\<bar> \<le> 1 / 2 ^ 24"
proof -
  define m where "m = \<bar>x\<bar> * 2 ^ 149"
  define b where "b = bitlen \<lfloor>m\<rfloor>"
  define k where "k = nat (max b 24 - 24)"
  define s :: real where "s = 2 ^ k"
  define r where "r = of_int (round_half_even (m / s)) * s / 2 ^ 149"
  have m0: "0 \<le> m" by (simp add: m_def)
  have m1: "m \<le> 2 ^ 149" using assms by (simp add: m_def)
  have "\<lfloor>m\<rfloor> \<le> 2 ^ 149" using m1 by (simp add: floor_le_iff) 
  then have "\<lfloor>m\<rfloor> < 2 ^ nat 150" by simp
  then have "b \<le> 150" unfolding b_def by (simp add: bitlen_le_iff_power)
  then have k: "k \<le> 126" by (simp add: k_def)
  have s0: "0 < s" by (simp add: s_def)
  have split: "(2::real) ^ 149 = 2 ^ (149 - k) * s"
    using k by (simp add: s_def flip: power_add)
  have "m / s \<le> 2 ^ (149 - k)"
    using m1 s0 split by (simp add: divide_le_eq)
  then have "m / s \<le> of_int (2 ^ (149 - k))" by simp
  then have "round_half_even (m / s) \<le> 2 ^ (149 - k)"
    by (rule round_half_even_le)
  then have "(of_int (round_half_even (m / s)) :: real) \<le> 2 ^ (149 - k)"
    by (metis of_int_le_iff of_int_numeral of_int_power)
  then have "of_int (round_half_even (m / s)) * s \<le> 2 ^ (149 - k) * s"
    using s0 by simp
  then have r1: "r \<le> 1"
    using split by (simp add: r_def)
  have "0 \<le> round_half_even (m / s)"
    using m0 s0 by (intro round_half_even_nonneg) simp
  then have r0: "0 \<le> r" using s0 by (simp add: r_def)
  have "\<bar>of_int (round_half_even (m / s)) - m / s\<bar> \<le> 1 / 2"
    by (rule round_half_even_close)
  then have "\<bar>of_int (round_half_even (m / s)) - m / s\<bar> * \<bar>s\<bar> \<le> 1 / 2 * s"
    using s0 by (intro mult_mono) simp_all
  then have "\<bar>(of_int (round_half_even (m / s)) - m / s) * s\<bar> \<le> s / 2"
    by (simp add: abs_mult)
  then have "\<bar>of_int (round_half_even (m / s)) * s - m\<bar> \<le> s / 2"
    using s0 by (simp add: left_diff_distrib)
  moreover have "s \<le> 2 ^ 126"
    unfolding s_def using k by (intro power_increasing) simp_all
  ultimately have am: "\<bar>of_int (round_half_even (m / s)) * s - m\<bar> \<le> 2 ^ 126 / 2"
    by linarith
  define c :: real where "c = 2 ^ 149"
  have c0: "0 < c" by (simp add: c_def)
  have "r - \<bar>x\<bar> = (of_int (round_half_even (m / s)) * s - m) / c"
    by (simp add: r_def m_def c_def diff_divide_distrib)
  then have "\<bar>r - \<bar>x\<bar>\<bar> = \<bar>of_int (round_half_even (m / s)) * s - m\<bar> / c"
    using c0 by simp
  also have "\<dots> \<le> (2 ^ 126 / 2) / c"
    using am c0 by (intro divide_right_mono) simp_all
  also have "\<dots> = 1 / 2 ^ 24"
    by (simp add: c_def)
  finally have close: "\<bar>r - \<bar>x\<bar>\<bar> \<le> 1 / 2 ^ 24" .
  have eq: "f32_round x = (if 2 ^ 128 \<le> r then (if 0 < x then PInf else NInf) else Fin (sgn x * r))"
    unfolding f32_round_def Let_def r_def s_def k_def b_def m_def ..
  show ?thesis
  proof (cases "x = 0")
    case True
    then show ?thesis using eq r1 by simp
  next
    case False
    then have "sgn x = 1" "\<bar>x\<bar> = x" using assms by simp_all
    then show ?thesis using eq r0 r1 close by simp
  qed
qed

lemma normalize_pixel_range:
  "\<exists>v. normalize_pixel p = Fin v \<and> 0 \<le> v \<and> v \<le> 1 \<and> \<bar>v - real (unat p) / 255\<bar> \<le> 1 / 2 ^ 24"
proof -
  define n where "n = unat p"
  have "n < 2 ^ 8" unfolding n_def using unsigned_less [of p] by simp
  then have "n \<le> 255" by simp
  then have "real n \<le> 255" by (metis of_nat_le_iff of_nat_numeral)
  then have hi: "real n / 255 \<le> 1" by simp
  have lo: "0 \<le> real n / 255" by simp
  show ?thesis
    unfolding normalize_pixel_def n_def [symmetric] by (rule f32_round_unit [OF lo hi])
qed

subsection \<open>Batching and shuffling\<close>

declare batch_elements.simps [simp del]







subsection \<open>The two pipelines\<close>







text \<open>
  C4: the normalization used for the train and test splits maps every 8-bit pixel to the
  \<^verbatim>\<open>float32\<close> quotient of its intensity by 255 and keeps the label; every resulting
  pixel is a finite value in \<open>[0, 1]\<close>, within \<open>2 ^ -24\<close> of the exact quotient.
\<close>

theorem normalize_img_unit_interval:
  "fst (normalize_img (img, label)) = map (\<lambda>p. f32_round (real (unat p) / 255)) img
   \<and> snd (normalize_img (img, label)) = label
   \<and> (\<forall>i < length img. \<exists>v. fst (normalize_img (img, label)) ! i = Fin v \<and> 0 \<le> v \<and> v \<le> 1
          \<and> \<bar>v - real (unat (img ! i)) / 255\<bar> \<le> 1 / 2 ^ 24)"
proof -
  have "\<exists>v. map normalize_pixel img ! i = Fin v \<and> 0 \<le> v \<and> v \<le> 1
          \<and> \<bar>v - real (unat (img ! i)) / 255\<bar> \<le> 1 / 2 ^ 24" if "i < length img" for i
    using that normalize_pixel_range [of "img ! i"] by simp
  moreover have "map normalize_pixel img = map (\<lambda>p. f32_round (real (unat p) / 255)) img"
    by (simp add: normalize_pixel_def)
  ultimately show ?thesis by simp
qed

theorem normalize_img_unit_interval_witness:
  "fst (normalize_img ([0, 1, 128, 255], 7)) =
     [Fin 0, Fin (8421505 / 2147483648), Fin (8421505 / 16777216), Fin 1]
   \<and> snd (normalize_img ([0, 1, 128, 255], 7)) = 7
   \<and> (1 :: nat) < length [0, 1, 128, 255 :: 8 word]
   \<and> (\<exists>v. fst (normalize_img ([0, 1, 128, 255], 7)) ! 1 = Fin v \<and> 0 \<le> v \<and> v \<le> 1
          \<and> \<bar>v - real (unat ([0, 1, 128, 255 :: 8 word] ! 1)) / 255\<bar> \<le> 1 / 2 ^ 24)"
proof -
  have a: "f32_round (real (unat (0 :: 8 word)) / 255) = Fin 0"
    by code_simp
  have b: "f32_round (real (unat (1 :: 8 word)) / 255) = Fin (8421505 / 2147483648)"
    by code_simp
  have c: "f32_round (real (unat (128 :: 8 word)) / 255) = Fin (8421505 / 16777216)"
    by code_simp
  have d: "f32_round (real (unat (255 :: 8 word)) / 255) = Fin 1"
    by code_simp
  have len: "(1 :: nat) < length [0, 1, 128, 255 :: 8 word]"
    by simp
  note inst = normalize_img_unit_interval [of "[0, 1, 128, 255]" 7]
  have eq: "fst (normalize_img ([0, 1, 128, 255], 7)) =
        map (\<lambda>p. f32_round (real (unat p) / 255)) [0, 1, 128, 255 :: 8 word]"
    by (rule conjunct1 [OF inst])
  have lab: "snd (normalize_img ([0, 1, 128, 255], 7)) = 7"
    by (rule conjunct1 [OF conjunct2 [OF inst]])
  have rng: "\<exists>v. fst (normalize_img ([0, 1, 128, 255], 7)) ! 1 = Fin v
      \<and> 0 \<le> v \<and> v \<le> 1
      \<and> \<bar>v - real (unat ([0, 1, 128, 255 :: 8 word] ! 1)) / 255\<bar> \<le> 1 / 2 ^ 24"
    by (rule mp [OF spec [OF conjunct2 [OF conjunct2 [OF inst]]] len])
  have vals: "fst (normalize_img ([0, 1, 128, 255], 7)) =
     [Fin 0, Fin (8421505 / 2147483648), Fin (8421505 / 16777216), Fin 1]"
    unfolding eq list.map a b c d ..
  show ?thesis
    by (intro conjI vals lab len rng)
qed







section \<open>Properties of the model\<close>

lemma length_concat_const:
  "(\<And>x. x \<in> set xs \<Longrightarrow> length (g x) = n) \<Longrightarrow> length (concat (map g xs)) = length xs * n"
  by (induction xs) simp_all

lemma apply_conv_same:
  "shape t = [h, w, c] \<Longrightarrow>
   apply_layer (Conv2D k f Same a K B) t =
     Inr \<lparr>shape = [h, w, f],
          vals = [conv_entry k a K B ((k - 1) div 2) h w c (vals t) i j fi.
                  i \<leftarrow> [0..<h], j \<leftarrow> [0..<w], fi \<leftarrow> [0..<f]]\<rparr>"
  by simp

lemma length_conv_vals:
  "length [g i j fi. i \<leftarrow> [0..<h], j \<leftarrow> [0..<w], fi \<leftarrow> [0..<f]] = h * w * f"
proof -
  have inner: "length (concat (map (\<lambda>j. map (g i j) [0..<f]) [0..<w])) = w * f" for i
    by (simp add: length_concat_const)
  show ?thesis
    by (simp add: length_concat_const inner)
qed

lemma apply_dense_vector:
  assumes "shape t = [n]" and "length (vals t) = n"
  shows "apply_layer (Dense u a W B) t =
     Inr \<lparr>shape = [u], vals = map (dense_entry a W B n (vals t)) [0..<u]\<rparr>"
  using assms by (simp add: Let_def)

lemma standardize_input_same:
  "shape t = [28, 28, 1] \<Longrightarrow> standardize_input t = Inr t"
  by (simp add: standardize_input_def adjust_input_rank_def input_shape_def)

lemma standardize_input_expand:
  "shape t = [28, 28] \<Longrightarrow> standardize_input t = Inr \<lparr>shape = [28, 28, 1], vals = vals t\<rparr>"
  by (simp add: standardize_input_def adjust_input_rank_def input_shape_def)

lemma standardize_input_squeeze:
  "shape t = [28, 28, 1, 1] \<Longrightarrow>
     standardize_input t = Inr \<lparr>shape = [28, 28, 1], vals = vals t\<rparr>"
  by (simp add: standardize_input_def adjust_input_rank_def input_shape_def)

lemma standardize_input_shape:
  "standardize_input t = Inr t' \<Longrightarrow> shape t' = [28, 28, 1] \<and> vals t' = vals t"
  by (auto simp: standardize_input_def input_shape_def split: sum.splits if_splits)

lemma forward_eq:
  assumes "shape t = [28, 28, 1]"
  shows "forward W t =
     Inr (map (dense_entry Linear (dense2_kernel W) (dense2_bias W) 64
            (map (dense_entry Relu (dense1_kernel W) (dense1_bias W) 2352
              [conv_entry 4 Relu (conv_kernel W) (conv_bias W) 1 28 28 1 (vals t) i j fi.
                  i \<leftarrow> [0..<28], j \<leftarrow> [0..<28], fi \<leftarrow> [0..<3]]) [0..<64])) [0..<10])"
proof -
  define c where "c = [conv_entry 4 Relu (conv_kernel W) (conv_bias W) 1 28 28 1 (vals t) i j fi.
                  i \<leftarrow> [0..<28], j \<leftarrow> [0..<28], fi \<leftarrow> [0..<3]]"
  define h where "h = map (dense_entry Relu (dense1_kernel W) (dense1_bias W) 2352 c) [0..<64]"
  have lc: "length c = 2352"
    unfolding c_def by (simp only: length_conv_vals)
  have s1: "apply_layer (Conv2D 4 3 Same Relu (conv_kernel W) (conv_bias W)) t =
      Inr \<lparr>shape = [28, 28, 3], vals = c\<rparr>"
    using apply_conv_same [OF assms, of 4 3 Relu "conv_kernel W" "conv_bias W"]
    by (simp add: c_def)
  have s2: "apply_layer Flatten \<lparr>shape = [28, 28, 3], vals = c\<rparr> = Inr \<lparr>shape = [2352], vals = c\<rparr>"
    by simp
  have s3: "apply_layer (Dense 64 Relu (dense1_kernel W) (dense1_bias W)) \<lparr>shape = [2352], vals = c\<rparr>
      = Inr \<lparr>shape = [64], vals = h\<rparr>"
    using apply_dense_vector [of "\<lparr>shape = [2352], vals = c\<rparr>" 2352] lc
    by (simp add: h_def)
  have s4: "apply_layer (Dense 10 Linear (dense2_kernel W) (dense2_bias W)) \<lparr>shape = [64], vals = h\<rparr>
      = Inr \<lparr>shape = [10],
             vals = map (dense_entry Linear (dense2_kernel W) (dense2_bias W) 64 h) [0..<10]\<rparr>"
    using apply_dense_vector [of "\<lparr>shape = [64], vals = h\<rparr>" 64]
    by (simp add: h_def)
  have "sequential (model_layers W) t =
      Inr \<lparr>shape = [10],
           vals = map (dense_entry Linear (dense2_kernel W) (dense2_bias W) 64 h) [0..<10]\<rparr>"
    unfolding model_layers_def by (simp only: sequential.simps s1 s2 s3 s4 sum.case)
  then show ?thesis
    using assms by (simp add: forward_def standardize_input_same h_def c_def)
qed



lemma forward_length: "forward W t = Inr y \<Longrightarrow> length y = 10"
proof -
  assume fw: "forward W t = Inr y"
  then obtain t' where st: "standardize_input t = Inr t'"
    by (auto simp: forward_def split: sum.splits)
  then have sh: "shape t' = [28, 28, 1]"
    using standardize_input_shape by blast
  have "forward W t = forward W t'"
    by (simp add: forward_def st standardize_input_same [OF sh])
  with fw forward_eq [OF sh, of W] show ?thesis
    by auto
qed

lemma forward_adjusted:
  assumes "shape t = [28, 28] \<or> shape t = [28, 28, 1, 1]"
  shows "forward W t = forward W \<lparr>shape = [28, 28, 1], vals = vals t\<rparr>"
proof -
  have "standardize_input t = Inr \<lparr>shape = [28, 28, 1], vals = vals t\<rparr>"
    using assms standardize_input_expand standardize_input_squeeze by blast
  moreover have "standardize_input \<lparr>shape = [28, 28, 1], vals = vals t\<rparr> =
      Inr \<lparr>shape = [28, 28, 1], vals = vals t\<rparr>"
    by (rule standardize_input_same) simp
  ultimately show ?thesis
    by (simp add: forward_def)
qed


text \<open>
  C7: the model is the fixed sequence of a convolution with a \<open>4 \<times> 4\<close> kernel, 3 filters,
  \<^verbatim>\<open>same\<close> padding and ReLU, a flatten stage, a dense layer of 64 units with ReLU and a
  dense layer of 10 units without activation. On an input of shape \<open>28 \<times> 28 \<times> 1\<close> the
  stages yield shapes \<open>28 \<times> 28 \<times> 3\<close>, \<open>2352\<close>, \<open>64\<close> and \<open>10\<close>, the ten outputs
  are the affine combinations of the last layer, and the forward pass returns them. An
  input of shape \<open>28 \<times> 28\<close> or \<open>28 \<times> 28 \<times> 1 \<times> 1\<close> is taken as the same values in
  shape \<open>28 \<times> 28 \<times> 1\<close>. Whatever the input, an output of the model has exactly 10
  logits.
\<close>

theorem model_topology:
  "model_layers W =
     [Conv2D 4 3 Same Relu (conv_kernel W) (conv_bias W), Flatten,
      Dense 64 Relu (dense1_kernel W) (dense1_bias W),
      Dense 10 Linear (dense2_kernel W) (dense2_bias W)]
   \<and> (shape t = [28, 28, 1] \<longrightarrow>
        (\<exists>c h y.
           apply_layer (model_layers W ! 0) t = Inr c \<and> shape c = [28, 28, 3]
         \<and> apply_layer (model_layers W ! 1) c = Inr \<lparr>shape = [2352], vals = vals c\<rparr>
         \<and> apply_layer (model_layers W ! 2) \<lparr>shape = [2352], vals = vals c\<rparr> = Inr h
         \<and> shape h = [64]
         \<and> apply_layer (model_layers W ! 3) h = Inr y \<and> shape y = [10]
         \<and> length (vals y) = 10
         \<and> (\<forall>u < 10. vals y ! u =
               fadd (fsum [fmul (vals h ! i) (dense2_kernel W i u). i \<leftarrow> [0..<64]])
                    (dense2_bias W u))
         \<and> forward W t = Inr (vals y)))
   \<and> (shape t = [28, 28] \<or> shape t = [28, 28, 1, 1] \<longrightarrow>
        forward W t = forward W \<lparr>shape = [28, 28, 1], vals = vals t\<rparr>)
   \<and> (\<forall>y. forward W t = Inr y \<longrightarrow> length y = 10)"
proof -
  define c where "c = [conv_entry 4 Relu (conv_kernel W) (conv_bias W) 1 28 28 1 (vals t) i j fi.
                  i \<leftarrow> [0..<28], j \<leftarrow> [0..<28], fi \<leftarrow> [0..<3]]"
  define h where "h = map (dense_entry Relu (dense1_kernel W) (dense1_bias W) 2352 c) [0..<64]"
  define y where "y = map (dense_entry Linear (dense2_kernel W) (dense2_bias W) 64 h) [0..<10]"
  have lc: "length c = 2352"
    unfolding c_def by (simp only: length_conv_vals)
  have layers: "model_layers W ! 0 = Conv2D 4 3 Same Relu (conv_kernel W) (conv_bias W)"
    "model_layers W ! 1 = Flatten"
    "model_layers W ! 2 = Dense 64 Relu (dense1_kernel W) (dense1_bias W)"
    "model_layers W ! 3 = Dense 10 Linear (dense2_kernel W) (dense2_bias W)"
    by (simp_all add: model_layers_def numeral_3_eq_3 numeral_2_eq_2)
  have s2: "apply_layer Flatten \<lparr>shape = [28, 28, 3], vals = c\<rparr> = Inr \<lparr>shape = [2352], vals = c\<rparr>"
    by simp
  have s3: "apply_layer (Dense 64 Relu (dense1_kernel W) (dense1_bias W)) \<lparr>shape = [2352], vals = c\<rparr>
      = Inr \<lparr>shape = [64], vals = h\<rparr>"
    using apply_dense_vector [of "\<lparr>shape = [2352], vals = c\<rparr>" 2352] lc
    by (simp add: h_def)
  have s4: "apply_layer (Dense 10 Linear (dense2_kernel W) (dense2_bias W)) \<lparr>shape = [64], vals = h\<rparr>
      = Inr \<lparr>shape = [10], vals = y\<rparr>"
    using apply_dense_vector [of "\<lparr>shape = [64], vals = h\<rparr>" 64]
    by (simp add: h_def y_def)
  have raw: "y ! u = fadd (fsum [fmul (h ! i) (dense2_kernel W i u). i \<leftarrow> [0..<64]])
      (dense2_bias W u)" if "u < 10" for u
    using that by (simp add: y_def dense_entry_def)
  have main: "\<exists>c h y.
           apply_layer (model_layers W ! 0) t = Inr c \<and> shape c = [28, 28, 3]
         \<and> apply_layer (model_layers W ! 1) c = Inr \<lparr>shape = [2352], vals = vals c\<rparr>
         \<and> apply_layer (model_layers W ! 2) \<lparr>shape = [2352], vals = vals c\<rparr> = Inr h
         \<and> shape h = [64]
         \<and> apply_layer (model_layers W ! 3) h = Inr y \<and> shape y = [10]
         \<and> length (vals y) = 10
         \<and> (\<forall>u < 10. vals y ! u =
               fadd (fsum [fmul (vals h ! i) (dense2_kernel W i u). i \<leftarrow> [0..<64]])
                    (dense2_bias W u))
         \<and> forward W t = Inr (vals y)" if t: "shape t = [28, 28, 1]"
  proof -
    have s1: "apply_layer (Conv2D 4 3 Same Relu (conv_kernel W) (conv_bias W)) t =
        Inr \<lparr>shape = [28, 28, 3], vals = c\<rparr>"
      using apply_conv_same [OF t, of 4 3 Relu "conv_kernel W" "conv_bias W"]
      by (simp add: c_def)
    have fw: "forward W t = Inr y"
      using forward_eq [OF t, of W] by (simp add: y_def h_def c_def)
    have ly: "length y = 10"
      by (simp add: y_def)
    show ?thesis
      unfolding layers
      apply (rule exI [of _ "\<lparr>shape = [28, 28, 3], vals = c\<rparr>"])
      apply (rule exI [of _ "\<lparr>shape = [64], vals = h\<rparr>"])
      apply (rule exI [of _ "\<lparr>shape = [10], vals = y\<rparr>"])
      by (simp add: s1 s2 s3 s4 fw raw ly del: apply_layer.simps)
  qed
  show ?thesis
    using main forward_adjusted [of t W] forward_length [of W t]
    by (simp add: model_layers_def)
qed

theorem model_topology_witness:
  "shape \<lparr>shape = [28, 28, 1], vals = replicate 784 (Fin 0)\<rparr> = [28, 28, 1]
   \<and> (\<exists>y. forward zero_weights \<lparr>shape = [28, 28, 1], vals = replicate 784 (Fin 0)\<rparr> = Inr y
          \<and> length y = 10)
   \<and> shape \<lparr>shape = [28, 28], vals = replicate 784 (Fin 0)\<rparr> = [28, 28]
   \<and> forward zero_weights \<lparr>shape = [28, 28], vals = replicate 784 (Fin 0)\<rparr> =
       forward zero_weights \<lparr>shape = [28, 28, 1], vals = replicate 784 (Fin 0)\<rparr>"
proof -
  let ?t = "\<lparr>shape = [28, 28, 1], vals = replicate 784 (Fin 0)\<rparr>"
  let ?t' = "\<lparr>shape = [28, 28], vals = replicate 784 (Fin 0)\<rparr>"
  have a: "shape ?t = [28, 28, 1]"
    by simp
  have b: "shape ?t' = [28, 28]"
    by simp
  note inst = model_topology [of zero_weights ?t]
  have "shape ?t = [28, 28, 1] \<longrightarrow>
        (\<exists>c h y.
           apply_layer (model_layers zero_weights ! 0) ?t = Inr c \<and> shape c = [28, 28, 3]
         \<and> apply_layer (model_layers zero_weights ! 1) c = Inr \<lparr>shape = [2352], vals = vals c\<rparr>
         \<and> apply_layer (model_layers zero_weights ! 2) \<lparr>shape = [2352], vals = vals c\<rparr> = Inr h
         \<and> shape h = [64]
         \<and> apply_layer (model_layers zero_weights ! 3) h = Inr y \<and> shape y = [10]
         \<and> length (vals y) = 10
         \<and> (\<forall>u < 10. vals y ! u =
               fadd (fsum [fmul (vals h ! i) (dense2_kernel zero_weights i u). i \<leftarrow> [0..<64]])
                    (dense2_bias zero_weights u))
         \<and> forward zero_weights ?t = Inr (vals y))"
    by (rule conjunct1 [OF conjunct2 [OF inst]])
  from mp [OF this a]
  obtain y :: tensor where fw: "forward zero_weights ?t = Inr (vals y)" and ly: "length (vals y) = 10"
    by blast
  have c: "\<exists>y. forward zero_weights ?t = Inr y \<and> length y = 10"
    using fw ly by (intro exI [of _ "vals y"] conjI)
  have "shape ?t' = [28, 28] \<or> shape ?t' = [28, 28, 1, 1] \<longrightarrow>
      forward zero_weights ?t' = forward zero_weights \<lparr>shape = [28, 28, 1], vals = vals ?t'\<rparr>"
    by (rule conjunct1 [OF conjunct2 [OF conjunct2 [OF model_topology [of zero_weights ?t']]]])
  with b have d: "forward zero_weights ?t' = forward zero_weights ?t"
    by simp
  show ?thesis
    by (intro conjI a b c d)
qed

subsection \<open>NaN in the forward pass\<close>

lemma fadd_NaN_right: "fadd x NaN = NaN"
  by (cases x) simp_all

lemma foldl_fadd_NaN: "foldl fadd NaN xs = NaN"
  by (induction xs) simp_all

lemma foldl_fadd_mem_NaN: "NaN \<in> set xs \<Longrightarrow> foldl fadd a xs = NaN"
proof (induction xs arbitrary: a)
  case Nil
  then show ?case by simp
next
  case (Cons x xs)
  show ?case
  proof (cases "x = NaN")
    case True
    then show ?thesis by (simp add: fadd_NaN_right foldl_fadd_NaN)
  next
    case False
    with Cons show ?thesis by simp
  qed
qed

lemma fsum_NaN: "NaN \<in> set xs \<Longrightarrow> fsum xs = NaN"
  by (simp add: fsum_def foldl_fadd_mem_NaN)

lemma activate_NaN: "activate a NaN = NaN"
  by (cases a) simp_all

lemma mem_concat_map: "x \<in> set xs \<Longrightarrow> y \<in> set (f x) \<Longrightarrow> y \<in> set (concat (map f xs))"
  by auto

lemma mem_comprehension3:
  assumes "a < k" "b < l" "d < c"
  shows "g a b d \<in> set [g x y z. x \<leftarrow> [0..<k], y \<leftarrow> [0..<l], z \<leftarrow> [0..<c]]"
proof -
  have m1: "g a b d \<in> set (map (g a b) [0..<c])"
    using assms(3) by simp
  have b_in: "b \<in> set [0..<l]"
    using assms(2) by simp
  have a_in: "a \<in> set [0..<k]"
    using assms(1) by simp
  have m2: "g a b d \<in> set (concat (map (\<lambda>y. map (g a y) [0..<c]) [0..<l]))"
    by (rule mem_concat_map [of b "[0..<l]" "g a b d" "\<lambda>y. map (g a y) [0..<c]", OF b_in m1])
  show ?thesis
    by (rule mem_concat_map [of a "[0..<k]" "g a b d"
          "\<lambda>x. concat (map (\<lambda>y. map (g x y) [0..<c]) [0..<l])", OF a_in m2])
qed

lemma conv_entry_NaN:
  assumes "i < h" "j < w" "0 < c" "pb < k" "xs ! ((i * w + j) * c) = NaN"
  shows "conv_entry k a K B pb h w c xs i j f = NaN"
proof -
  define g where "g = (\<lambda>di dj ci.
    fmul (pixel_at h w c xs (int i + int di - int pb) (int j + int dj - int pb) ci)
      (K di dj ci f))"
  have "pixel_at h w c xs (int i + int pb - int pb) (int j + int pb - int pb) 0 = NaN"
    using assms by (simp add: pixel_at_def)
  then have "g pb pb 0 = NaN"
    by (simp add: g_def)
  moreover have "g pb pb 0 \<in> set [g di dj ci. di \<leftarrow> [0..<k], dj \<leftarrow> [0..<k], ci \<leftarrow> [0..<c]]"
    using assms(3,4) by (intro mem_comprehension3)
  ultimately have "NaN \<in> set [g di dj ci. di \<leftarrow> [0..<k], dj \<leftarrow> [0..<k], ci \<leftarrow> [0..<c]]"
    by simp
  then have "fsum [g di dj ci. di \<leftarrow> [0..<k], dj \<leftarrow> [0..<k], ci \<leftarrow> [0..<c]] = NaN"
    by (rule fsum_NaN)
  then show ?thesis
    unfolding conv_entry_def g_def by (simp only: fadd.simps activate_NaN)
qed

lemma dense_entry_NaN:
  assumes "0 < n" "xs ! 0 = NaN"
  shows "dense_entry a W B n xs u = NaN"
proof -
  have "fmul (xs ! 0) (W 0 u) \<in> set [fmul (xs ! i) (W i u). i \<leftarrow> [0..<n]]"
    using assms(1) by auto
  then have "NaN \<in> set [fmul (xs ! i) (W i u). i \<leftarrow> [0..<n]]"
    using assms(2) by simp
  then show ?thesis
    unfolding dense_entry_def by (simp only: fsum_NaN fadd.simps activate_NaN)
qed

lemma forward_NaN:
  assumes "shape t = [28, 28, 1]" and "vals t = replicate 784 NaN"
  shows "forward W t = Inr (replicate 10 NaN)"
proof -
  define c where "c = [conv_entry 4 Relu (conv_kernel W) (conv_bias W) 1 28 28 1 (vals t) i j fi.
                  i \<leftarrow> [0..<28], j \<leftarrow> [0..<28], fi \<leftarrow> [0..<3]]"
  define h where "h = map (dense_entry Relu (dense1_kernel W) (dense1_bias W) 2352 c) [0..<64]"
  have entry: "conv_entry 4 Relu (conv_kernel W) (conv_bias W) 1 28 28 1 (vals t) i j f = NaN"
    if "i < 28" "j < 28" for i j f
  proof -
    have "i * 28 + j < 784" using that by simp
    then have "vals t ! ((i * 28 + j) * 1) = NaN"
      by (simp add: assms(2))
    then show ?thesis
      using that by (intro conv_entry_NaN) simp_all
  qed
  have "x = NaN" if "x \<in> set c" for x
    using that entry unfolding c_def by auto
  moreover have lc: "length c = 2352"
    unfolding c_def by (simp only: length_conv_vals)
  ultimately have c0: "c ! 0 = NaN"
    by (metis nth_mem zero_less_numeral)
  have "h = map (\<lambda>u. NaN) [0..<64]"
    unfolding h_def using dense_entry_NaN [OF _ c0, of 2352] by simp
  then have h0: "h ! 0 = NaN"
    by simp
  have "map (dense_entry Linear (dense2_kernel W) (dense2_bias W) 64 h) [0..<10] =
      map (\<lambda>u. NaN) [0..<10]"
    using dense_entry_NaN [OF _ h0, of 64] by simp
  also have "\<dots> = replicate 10 NaN"
    by (simp add: map_replicate_const)
  finally show ?thesis
    using forward_eq [OF assms(1), of W] by (simp add: c_def h_def)
qed

subsection \<open>The argmax\<close>

lemma fle_trans: "fle x y \<Longrightarrow> fle y z \<Longrightarrow> fle x z"
  by (cases x; cases y; cases z) simp_all

lemma fle_total: "x \<noteq> NaN \<Longrightarrow> y \<noteq> NaN \<Longrightarrow> fle x y \<or> fle y x"
  by (cases x; cases y) auto

lemma fle_not_NaN: "fle x y \<Longrightarrow> x \<noteq> NaN \<and> y \<noteq> NaN"
  by (cases x; cases y) simp_all

lemma first_max_iff:
  "first_max L d \<longleftrightarrow>
     d < length L \<and>
     (if NaN \<in> set L then L ! d = NaN \<and> (\<forall>j < d. L ! j \<noteq> NaN)
      else (\<forall>j < length L. fle (L ! j) (L ! d)) \<and> (\<forall>j < d. \<not> fle (L ! d) (L ! j)))"
proof (cases "d < length L")
  case False
  then show ?thesis by (simp add: first_max_def)
next
  case True
  then have "min (length L) d = d" by simp
  then have a: "NaN \<notin> set (take d L) \<longleftrightarrow> (\<forall>j < d. L ! j \<noteq> NaN)"
    by (auto simp: in_set_conv_nth)
  have b: "list_all P (take d L) \<longleftrightarrow> (\<forall>j < d. P (L ! j))" for P
    using True by (simp add: list_all_length)
  have c: "list_all P L \<longleftrightarrow> (\<forall>j < length L. P (L ! j))" for P
    by (simp add: list_all_length)
  show ?thesis
    unfolding first_max_def a b c by simp
qed

lemma argmax_loop_first_max:
  assumes "length pre = i" "mi < i" "pre ! mi = mp" "NaN \<notin> set pre"
    and "\<forall>j < i. fle (pre ! j) mp" and "\<forall>j < mi. \<not> fle mp (pre ! j)"
  shows "first_max (pre @ xs) (argmax_loop mp mi i xs)"
  using assms
proof (induction xs arbitrary: pre i mi mp)
  case Nil
  then show ?case
    by (simp add: first_max_iff)
next
  case (Cons x xs)
  have mp: "mp \<noteq> NaN"
    using Cons.prems by (metis nth_mem)
  show ?case
  proof (cases "fle x mp")
    case True
    then have x: "x \<noteq> NaN" using fle_not_NaN by blast
    have "first_max ((pre @ [x]) @ xs) (argmax_loop mp mi (Suc i) xs)"
    proof (rule Cons.IH)
      show "length (pre @ [x]) = Suc i" using Cons.prems by simp
      show "mi < Suc i" using Cons.prems by simp
      show "(pre @ [x]) ! mi = mp" using Cons.prems by (simp add: nth_append)
      show "NaN \<notin> set (pre @ [x])" using Cons.prems x by simp
      show "\<forall>j < Suc i. fle ((pre @ [x]) ! j) mp"
        using Cons.prems True by (auto simp: nth_append less_Suc_eq)
      show "\<forall>j < mi. \<not> fle mp ((pre @ [x]) ! j)"
        using Cons.prems by (auto simp: nth_append)
    qed
    with True show ?thesis by simp
  next
    case False
    show ?thesis
    proof (cases "x = NaN")
      case True
      have "first_max (pre @ x # xs) i"
        using Cons.prems True by (auto simp: first_max_iff nth_append)
      with False True show ?thesis by simp
    next
      case x: False
      from fle_total [OF x mp] False have up: "fle mp x" by blast
      have "first_max ((pre @ [x]) @ xs) (argmax_loop x i (Suc i) xs)"
      proof (rule Cons.IH)
        show "length (pre @ [x]) = Suc i" using Cons.prems by simp
        show "i < Suc i" by simp
        show "(pre @ [x]) ! i = x" using Cons.prems by (simp add: nth_append)
        show "NaN \<notin> set (pre @ [x])" using Cons.prems x by simp
        have selfx: "fle x x" using x by (cases x) simp_all
        have "fle (pre ! j) x" if "j < i" for j
          using Cons.prems(5) that up fle_trans by blast
        then show "\<forall>j < Suc i. fle ((pre @ [x]) ! j) x"
          using Cons.prems(1) selfx by (simp add: nth_append less_Suc_eq)
        have "\<not> fle x (pre ! j)" if "j < i" for j
          using Cons.prems(5) that False fle_trans by blast
        then show "\<forall>j < i. \<not> fle x ((pre @ [x]) ! j)"
          using Cons.prems(1) by (simp add: nth_append)
      qed
      with False x show ?thesis by simp
    qed
  qed
qed

lemma np_argmax_first_max:
  assumes "xs \<noteq> []"
  shows "\<exists>d. np_argmax xs = Inr d \<and> first_max xs d"
proof -
  from assms obtain x ys where xs: "xs = x # ys" by (cases xs) auto
  show ?thesis
  proof (cases "x = NaN")
    case True
    then show ?thesis by (simp add: xs first_max_def)
  next
    case False
    then have self: "fle x x" by (cases x) simp_all
    have "first_max ([x] @ ys) (argmax_loop x 0 1 ys)"
      using False self by (intro argmax_loop_first_max) simp_all
    with False show ?thesis by (simp add: xs)
  qed
qed

section \<open>Properties of the inference cell\<close>

lemma length_np_array: "length (entries (np_array img)) = height img * width img"
proof -
  have "length (concat (map (\<lambda>y. map (\<lambda>x. getpixel img x y) [0..<width img]) [0..<height img]))
      = length [0..<height img] * width img"
    by (rule length_concat_const) simp
  then show ?thesis by (simp add: np_array_def)
qed

lemma np_max_Max: "xs \<noteq> [] \<Longrightarrow> np_max xs = Inr (Max (set xs))"
proof (cases xs)
  case Nil
  assume "xs \<noteq> []"
  with Nil show ?thesis by simp
next
  case (Cons x ys)
  have "foldl max x ys = fold max ys x"
    by (simp add: foldl_conv_fold max.commute)
  then show ?thesis
    using Cons Max.set_eq_fold [of x ys] by simp
qed

lemma examples_single:
  assumes "length e = 784"
  shows "examples \<lparr>dims = [1, 28, 28, 1], entries = e\<rparr> = [\<lparr>shape = [28, 28, 1], vals = e\<rparr>]"
  using assms by (simp add: examples_def)

lemma batch_elements_single: "0 < n \<Longrightarrow> batch_elements n [x] = [[x]]"
  by (subst batch_elements.simps) (simp add: batch_elements.simps)

lemma inference_cell_eq:
  assumes stored: "files user_image = Some img"
    and size: "height img * width img = 784"
  shows "\<exists>m y d.
      np_max (entries (np_array img)) = Inr m
    \<and> m = Max (set (entries (np_array img)))
    \<and> forward W \<lparr>shape = [28, 28, 1],
                   vals = map (\<lambda>p. true_divide p m) (entries (np_array img))\<rparr> = Inr y
    \<and> length y = 10
    \<and> np_argmax y = Inr d
    \<and> inference_cell files W = Inr \<lparr>printed_logits = [y], printed_prediction = d\<rparr>"
proof -
  define px where "px = entries (np_array img)"
  have lpx: "length px = 784"
    using size by (simp add: px_def length_np_array)
  then have ne: "px \<noteq> []" by auto
  define m where "m = Max (set px)"
  have mx: "np_max px = Inr m"
    using np_max_Max [OF ne] by (simp add: m_def)
  define e where "e = map (\<lambda>p. true_divide p m) px"
  have le: "length e = 784" by (simp add: e_def lpx)
  define t where "t = \<lparr>shape = [28, 28, 1], vals = e\<rparr>"
  have st: "shape t = [28, 28, 1]" by (simp add: t_def)
  from forward_eq [OF st, of W] obtain y where fw: "forward W t = Inr y" and ly: "length y = 10"
    by auto
  from ly obtain y0 ys where y: "y = y0 # ys" by (cases y) auto
  then obtain d where am: "np_argmax y = Inr d" by simp
  have rs: "np_reshape [1, 28, 28, 1] (np_array img) = Inr \<lparr>dims = [1, 28, 28, 1], entries = px\<rparr>"
    using size by (simp add: np_reshape_def px_def np_array_def del: One_nat_def)
  have ex: "examples \<lparr>dims = [1, 28, 28, 1], entries = e\<rparr> = [t]"
    using examples_single [OF le] by (simp add: t_def)
  have call: "model_call W \<lparr>dims = [1, 28, 28, 1], entries = e\<rparr> = Inr [y]"
    by (simp add: model_call_def adjust_input_rank_def input_shape_def ex fw del: One_nat_def)
  have pred: "model_predict W \<lparr>dims = [1, 28, 28, 1], entries = e\<rparr> = Inr [y]"
    by (simp add: model_predict_def ex batch_elements_single fw del: One_nat_def)
  have "inference_cell files W = Inr \<lparr>printed_logits = [y], printed_prediction = d\<rparr>"
    unfolding inference_cell_def
    by (simp add: stored rs mx call pred am Let_def del: One_nat_def flip: e_def)
  then show ?thesis
    using mx fw ly am unfolding px_def [symmetric] m_def [symmetric] t_def e_def by blast
qed

lemma concat_replicate_replicate:
  "concat (replicate n (replicate m x)) = replicate (n * m) x"
  by (induction n) (simp_all add: replicate_add)

lemma zero_image_entries:
  "entries (np_array zero_image) = replicate 784 0"
proof -
  have "concat (map (\<lambda>y. map (\<lambda>x. 0 :: 8 word) [0..<28]) [0..<28]) = replicate (28 * 28) 0"
    by (simp only: map_replicate_const concat_replicate_replicate length_upt diff_zero)
  then show ?thesis
    by (simp add: np_array_def zero_image_def)
qed

lemma normalize_pixel_one: "normalize_pixel m = Fin 1 \<Longrightarrow> m = 255"
proof -
  assume one: "normalize_pixel m = Fin 1"
  from normalize_pixel_range [of m] one
  have "\<bar>1 - real (unat m) / 255\<bar> \<le> 1 / 2 ^ 24"
    by auto
  then have "1 - real (unat m) / 255 \<le> 1 / 2 ^ 24"
    by linarith
  then have "254 < real (unat m)"
    by simp
  then have "254 < unat m"
    by linarith
  moreover have "unat m < 2 ^ 8"
    using unsigned_less [of m] by simp
  ultimately have "unat m = 255"
    by simp
  then have "unat m = unat (255 :: 8 word)"
    by simp
  then show ?thesis
    by (simp only: word_unat_eq_iff)
qed

lemma true_divide_max:
  "m \<noteq> 0 \<Longrightarrow> true_divide m m = Fin 1"
  by (simp add: true_divide_def unsigned_eq_0_iff)

text \<open>
  C2: for a stored image of 784 pixels the inference cell reads the intensities row by
  row, reshapes them to \<open>(1, 28, 28, 1)\<close>, divides every pixel by the maximum \<open>m\<close> of
  this image, runs the forward pass, prints the ten logits and reports their argmax. The
  divisor is the image's own maximum: a brightest pixel that is not zero becomes 1, which
  the training normalization yields for the intensity 255 only.
\<close>

theorem inference_step:
  assumes "files user_image = Some img" and "height img * width img = 784"
  shows "\<exists>px m y d.
        px = [getpixel img x y. y \<leftarrow> [0..<height img], x \<leftarrow> [0..<width img]]
      \<and> np_reshape [1, 28, 28, 1] (np_array img) = Inr \<lparr>dims = [1, 28, 28, 1], entries = px\<rparr>
      \<and> np_max px = Inr m \<and> m \<in> set px \<and> list_all (\<lambda>p. p \<le> m) px
      \<and> forward W \<lparr>shape = [28, 28, 1], vals = map (\<lambda>p. true_divide p m) px\<rparr> = Inr y
      \<and> length y = 10
      \<and> np_argmax y = Inr d \<and> first_max y d
      \<and> inference_cell files W = Inr \<lparr>printed_logits = [y], printed_prediction = d\<rparr>
      \<and> (m \<noteq> 0 \<longrightarrow> true_divide m m = Fin 1
            \<and> list_all (\<lambda>p. true_divide p m = Fin (real (unat p) / real (unat m))) px)
      \<and> (normalize_pixel m = Fin 1 \<longrightarrow> m = 255)"
proof -
  define px where "px = [getpixel img x y. y \<leftarrow> [0..<height img], x \<leftarrow> [0..<width img]]"
  have px: "entries (np_array img) = px"
    by (simp add: np_array_def px_def)
  have "length px = 784"
    using length_np_array [of img] assms(2) by (simp add: px)
  then have ne: "px \<noteq> []" by auto
  from inference_cell_eq [where files = files and img = img and W = W, OF assms]
  obtain m y d where mx: "np_max px = Inr m" and m: "m = Max (set px)"
    and fw: "forward W \<lparr>shape = [28, 28, 1], vals = map (\<lambda>p. true_divide p m) px\<rparr> = Inr y"
    and ly: "length y = 10" and am: "np_argmax y = Inr d"
    and cell: "inference_cell files W = Inr \<lparr>printed_logits = [y], printed_prediction = d\<rparr>"
    unfolding px by blast
  have min: "m \<in> set px"
    unfolding m using ne by (intro Max_in) simp_all
  have le: "list_all (\<lambda>p. p \<le> m) px"
    unfolding m by (simp add: list_all_iff)
  have rs: "np_reshape [1, 28, 28, 1] (np_array img) = Inr \<lparr>dims = [1, 28, 28, 1], entries = px\<rparr>"
    using assms(2) by (simp add: np_reshape_def np_array_def px_def del: One_nat_def)
  from ly have "y \<noteq> []" by auto
  from np_argmax_first_max [OF this] am have fm: "first_max y d"
    by auto
  have dv: "list_all (\<lambda>p. true_divide p m = Fin (real (unat p) / real (unat m))) px" if "m \<noteq> 0"
    using that by (simp add: list_all_iff true_divide_def)
  show ?thesis
    apply (rule exI [of _ px])
    apply (rule exI [of _ m])
    apply (rule exI [of _ y])
    apply (rule exI [of _ d])
    using rs mx min le fw ly am fm cell true_divide_max [of m] dv normalize_pixel_one [of m]
    by (simp add: px_def [symmetric])
qed

theorem inference_step_witness:
  "gray_files user_image = Some gray_image
   \<and> height gray_image * width gray_image = 784
   \<and> (\<exists>m y d. m \<in> set [getpixel gray_image x y. y \<leftarrow> [0..<height gray_image],
                                                   x \<leftarrow> [0..<width gray_image]]
        \<and> length y = 10 \<and> first_max y d
        \<and> inference_cell gray_files zero_weights =
            Inr \<lparr>printed_logits = [y], printed_prediction = d\<rparr>)"
proof -
  have a: "gray_files user_image = Some gray_image"
    by (simp add: gray_files_def)
  have b: "height gray_image * width gray_image = 784"
    by (simp add: gray_image_def)
  from inference_step [where files = gray_files and img = gray_image and W = zero_weights, OF a b]
  obtain px m y d where "px = [getpixel gray_image x y. y \<leftarrow> [0..<height gray_image],
                                                   x \<leftarrow> [0..<width gray_image]]"
    and "m \<in> set px" and "length y = 10" and "first_max y d"
    and "inference_cell gray_files zero_weights =
            Inr \<lparr>printed_logits = [y], printed_prediction = d\<rparr>"
    by blast
  then have "\<exists>m y d. m \<in> set [getpixel gray_image x y. y \<leftarrow> [0..<height gray_image],
                                                   x \<leftarrow> [0..<width gray_image]]
        \<and> length y = 10 \<and> first_max y d
        \<and> inference_cell gray_files zero_weights =
            Inr \<lparr>printed_logits = [y], printed_prediction = d\<rparr>"
    by blast
  with a b show ?thesis by blast
qed

text \<open>
  C3: the inference cell on a black image of 28 by 28 pixels. The maximum of the image is
  zero, the cell divides every pixel by it, and every entry of the model input is NaN; for
  every choice of weights the ten printed logits are NaN.
\<close>

theorem zero_image_logits:
  "inference_cell zero_image_files W =
     Inr \<lparr>printed_logits = [replicate 10 NaN], printed_prediction = 0\<rparr>"
proof -
  have stored: "zero_image_files user_image = Some zero_image"
    by (simp add: zero_image_files_def)
  have size: "height zero_image * width zero_image = 784"
    by (simp add: zero_image_def)
  have m: "Max (set (entries (np_array zero_image))) = 0"
    by (simp add: zero_image_entries)
  have e: "map (\<lambda>p. true_divide p 0) (entries (np_array zero_image)) = replicate 784 NaN"
    by (simp add: zero_image_entries true_divide_def)
  have fw: "forward W \<lparr>shape = [28, 28, 1], vals = replicate 784 NaN\<rparr> = Inr (replicate 10 NaN)"
    by (rule forward_NaN) simp_all
  from inference_cell_eq [where files = zero_image_files and img = zero_image and W = W, OF stored size] m e fw
  obtain d where am: "np_argmax (replicate 10 NaN) = Inr d"
    and cell: "inference_cell zero_image_files W =
      Inr \<lparr>printed_logits = [replicate 10 NaN], printed_prediction = d\<rparr>"
    by auto
  have "replicate 10 NaN = NaN # replicate 9 NaN"
    by (simp add: numeral_eq_Suc)
  with am have "d = 0" by simp
  with cell show ?thesis by simp
qed

text \<open>
  C9: no cell handles an error. A failure of the dataset fetch is the result of the loading
  cell, and the cell depends on the first attempt alone (no retry); a missing image file
  and an image whose pixel count is not \<open>28 \<times> 28\<close> make the inference cell fail with the
  library's own exception; an image of that pixel count passes.
\<close>

theorem no_error_handling:
  "(fetch 0 = Inl e \<longrightarrow> tfds_load fetch = Inl e)
   \<and> (fetch' 0 = fetch 0 \<longrightarrow> tfds_load fetch' = tfds_load fetch)
   \<and> (files user_image = None \<longrightarrow> inference_cell files W = Inl FileNotFoundError)
   \<and> (files user_image = Some img \<and> height img * width img \<noteq> 28 * 28 \<longrightarrow>
        inference_cell files W = Inl ValueError)
   \<and> (files user_image = Some img \<and> height img * width img = 28 * 28 \<longrightarrow>
        (\<exists>out. inference_cell files W = Inr out))"
proof -
  have a: "tfds_load fetch = Inl e" if "fetch 0 = Inl e"
    using that by (simp add: tfds_load_def)
  have b: "tfds_load fetch' = tfds_load fetch" if "fetch' 0 = fetch 0"
    using that by (simp add: tfds_load_def)
  have c: "inference_cell files W = Inl FileNotFoundError" if "files user_image = None"
    using that by (simp add: inference_cell_def)
  have d: "inference_cell files W = Inl ValueError"
    if "files user_image = Some img" "height img * width img \<noteq> 28 * 28"
    using that by (simp add: inference_cell_def np_reshape_def np_array_def)
  have e: "\<exists>out. inference_cell files W = Inr out"
    if "files user_image = Some img" "height img * width img = 28 * 28"
  proof -
    from that(2) have "height img * width img = 784" by simp
    from inference_cell_eq [where files = files and img = img and W = W, OF that(1) this]
    show ?thesis by blast
  qed
  from a b c d e show ?thesis by blast
qed

theorem no_error_handling_witness:
  "failing_fetch 0 = Inl DatasetUnavailable
   \<and> tfds_load failing_fetch = Inl DatasetUnavailable
   \<and> no_files user_image = None
   \<and> inference_cell no_files zero_weights = Inl FileNotFoundError
   \<and> wide_files user_image = Some wide_image
   \<and> height wide_image * width wide_image \<noteq> 28 * 28
   \<and> inference_cell wide_files zero_weights = Inl ValueError
   \<and> gray_files user_image = Some gray_image
   \<and> height gray_image * width gray_image = 28 * 28
   \<and> (\<exists>out. inference_cell gray_files zero_weights = Inr out)"
proof -
  have f0: "failing_fetch 0 = Inl DatasetUnavailable"
    by (simp add: failing_fetch_def)
  have n0: "no_files user_image = None"
    by (simp add: no_files_def)
  have w0: "wide_files user_image = Some wide_image"
    by (simp add: wide_files_def)
  have w1: "height wide_image * width wide_image \<noteq> 28 * 28"
    by (simp add: wide_image_def)
  have g0: "gray_files user_image = Some gray_image"
    by (simp add: gray_files_def)
  have g1: "height gray_image * width gray_image = 28 * 28"
    by (simp add: gray_image_def)
  have r1: "tfds_load failing_fetch = Inl DatasetUnavailable"
    using no_error_handling [where fetch = failing_fetch and e = DatasetUnavailable] f0
    by blast
  have r2: "inference_cell no_files zero_weights = Inl FileNotFoundError"
    using no_error_handling [where files = no_files and W = zero_weights] n0 by blast
  have r3: "inference_cell wide_files zero_weights = Inl ValueError"
    using no_error_handling [where files = wide_files and W = zero_weights
        and img = wide_image] w0 w1 by blast
  have r4: "\<exists>out. inference_cell gray_files zero_weights = Inr out"
    using no_error_handling [where files = gray_files and W = zero_weights
        and img = gray_image] g0 g1 by blast
  show ?thesis
    by (intro conjI f0 r1 n0 r2 w0 w1 r3 g0 g1 r4)
qed

section \<open>Properties of compilation\<close>

lemma sum_list_exp_pos: "z \<noteq> [] \<Longrightarrow> 0 < sum_list (map exp z)" for z :: "real list"
proof (induction z)
  case Nil
  then show ?case by simp
next
  case (Cons a z)
  have "0 \<le> sum_list (map exp z)"
    by (rule sum_list_nonneg) auto
  moreover have "0 < exp a" by simp
  ultimately have "0 < exp a + sum_list (map exp z)"
    by (rule add_pos_nonneg [rotated])
  then show ?case by simp
qed

lemma loss_from_logits:
  assumes "y < length z"
  shows "loss_value (SparseCategoricalCrossentropy True) y z = - ln (softmax z ! y)"
proof -
  from assms have "z \<noteq> []" by auto
  then have pos: "0 < sum_list (map exp z)" by (rule sum_list_exp_pos)
  have "softmax z ! y = exp (z ! y) / sum_list (map exp z)"
    using assms by (simp add: softmax_def)
  then have "ln (softmax z ! y) = z ! y - ln (sum_list (map exp z))"
    using pos by (simp add: ln_div)
  then show ?thesis by simp
qed

lemma first_max_unique:
  assumes "first_max L d" and "first_max L d'"
  shows "d = d'"
proof (rule ccontr)
  assume ne: "d \<noteq> d'"
  have False if lt: "a < b" and A: "first_max L a" and B: "first_max L b" for a b
  proof (cases "NaN \<in> set L")
    case True
    with A B lt show False by (auto simp: first_max_iff)
  next
    case False
    from B have "b < length L" by (simp add: first_max_iff)
    with A False have "fle (L ! b) (L ! a)" by (simp add: first_max_iff)
    moreover from B False lt have "\<not> fle (L ! b) (L ! a)" by (simp add: first_max_iff)
    ultimately show False by simp
  qed
  from this [of d d'] this [of d' d] ne assms show False
    by (cases "d < d'") auto
qed

subsection \<open>The argmax of the accuracy metric\<close>

lemma fle_refl: "x \<noteq> NaN \<Longrightarrow> fle x x"
  by (cases x) simp_all

lemma fle_NInf: "x \<noteq> NaN \<Longrightarrow> fle NInf x"
  by (cases x) simp_all

lemma fle_NInf_iff: "fle x NInf \<longleftrightarrow> x = NInf"
  by (cases x) simp_all

lemma flt_NaN: "\<not> flt NaN x" "\<not> flt x NaN"
  by (cases x; simp add: flt_def)+

lemma first_max_map_iff:
  assumes "NaN \<notin> set (map c pre)" and "ai < length pre"
  shows "first_max (map c pre) ai \<longleftrightarrow>
           (\<forall>x \<in> set pre. fle (c x) (c (pre ! ai))) \<and> (\<forall>x \<in> set (take ai pre). \<not> fle (c (pre ! ai)) (c x))"
  using assms unfolding first_max_def
  by (simp add: list_all_iff take_map)

text \<open>
  Once an entry has replaced the initial value, the reduction is a scan for the first
  greatest entry in which a NaN is passed over like \<open>-\<infinity>\<close>.
\<close>

lemma tf_argmax_loop_scan:
  assumes "ai < length pre" and "pre ! ai = av" and "av \<noteq> NaN"
    and "\<forall>x \<in> set pre. fle (if x = NaN then NInf else x) av"
    and "\<forall>x \<in> set (take ai pre). \<not> fle av (if x = NaN then NInf else x)"
  shows "first_max (map (\<lambda>v. if v = NaN then NInf else v) (pre @ xs))
           (tf_argmax_loop ai av (length pre) xs)"
  using assms
proof (induction xs arbitrary: pre ai av)
  case Nil
  let ?c = "\<lambda>v. if v = NaN then NInf else v"
  have nn: "NaN \<notin> set (map ?c pre)" by auto
  from Nil.prems(2,3) have e: "?c (pre ! ai) = av" by simp
  show ?case
    using Nil.prems(4,5) by (simp add: first_max_map_iff [OF nn Nil.prems(1)] e)
next
  case (Cons v xs)
  let ?c = "\<lambda>v. if v = NaN then NInf else v"
  let ?pre = "pre @ [v]"
  note av = Cons.prems(3)
  have keep: "first_max (map ?c (?pre @ xs)) (tf_argmax_loop ai av (length ?pre) xs)"
    if le: "fle (?c v) av"
  proof (rule Cons.IH)
    show "ai < length ?pre" using Cons.prems(1) by simp
    show "?pre ! ai = av" using Cons.prems(1,2) by (simp add: nth_append)
    show "av \<noteq> NaN" by (rule av)
    show "\<forall>x \<in> set ?pre. fle (?c x) av" using Cons.prems(4) le by simp
    show "\<forall>x \<in> set (take ai ?pre). \<not> fle av (?c x)"
      using Cons.prems(1,5) by simp
  qed
  have not_lt: "\<not> length pre < ai" using Cons.prems(1) by simp
  consider (below) "flt v av" | (above) "\<not> flt v av" "flt av v" | (level) "\<not> flt v av" "\<not> flt av v"
    by blast
  then show ?case
  proof cases
    case below
    then have "fle v av" by (simp add: flt_def)
    moreover from this have "v \<noteq> NaN" by (simp add: fle_not_NaN)
    ultimately have "fle (?c v) av" by simp
    from keep [OF this] below show ?thesis by simp
  next
    case above
    then have lt: "fle av v" "\<not> fle v av" by (simp_all add: flt_def)
    then have v: "v \<noteq> NaN" by (simp add: fle_not_NaN)
    have "first_max (map ?c (?pre @ xs)) (tf_argmax_loop (length pre) v (length ?pre) xs)"
    proof (rule Cons.IH)
      show "length pre < length ?pre" by simp
      show "?pre ! length pre = v" by simp
      show "v \<noteq> NaN" by (rule v)
      have "fle (?c x) v" if "x \<in> set pre" for x
      proof -
        from that Cons.prems(4) have "fle (?c x) av" by blast
        from fle_trans [OF this lt(1)] show ?thesis .
      qed
      moreover have "fle (?c v) v" using v by (simp add: fle_refl)
      ultimately show "\<forall>x \<in> set ?pre. fle (?c x) v" by simp
      have "\<not> fle v (?c x)" if "x \<in> set pre" for x
      proof
        assume a: "fle v (?c x)"
        from that Cons.prems(4) have "fle (?c x) av" by blast
        from fle_trans [OF a this] lt(2) show False by simp
      qed
      then show "\<forall>x \<in> set (take (length pre) ?pre). \<not> fle v (?c x)" by simp
    qed
    with above show ?thesis by simp
  next
    case level
    have "fle (?c v) av"
    proof (cases "v = NaN")
      case True
      with av show ?thesis by (simp add: fle_NInf)
    next
      case False
      from fle_total [OF False av] level have "fle v av" by (auto simp: flt_def)
      with False show ?thesis by simp
    qed
    from keep [OF this] level not_lt show ?thesis by simp
  qed
qed

text \<open>
  Before that, every entry read is a NaN or \<open>-\<infinity>\<close>, and the reduction still holds index 0
  and the initial value.
\<close>

lemma tf_argmax_loop_initial:
  assumes "\<forall>x \<in> set pre. x = NaN \<or> x = NInf"
    and "\<forall>v \<in> set xs. v = NaN \<or> v = NInf \<or> flt (Fin f32_lowest) v"
    and "pre @ xs \<noteq> []"
  shows "first_max (map (\<lambda>v. if v = NaN then NInf else v) (pre @ xs))
           (tf_argmax_loop 0 (Fin f32_lowest) (length pre) xs)"
  using assms
proof (induction xs arbitrary: pre)
  case Nil
  let ?c = "\<lambda>v. if v = NaN then NInf else v"
  have nn: "NaN \<notin> set (map ?c pre)" by auto
  from Nil.prems(3) have pos: "0 < length pre" by simp
  have all: "?c x = NInf" if "x \<in> set pre" for x
    using that Nil.prems(1) by auto
  from pos have "pre ! 0 \<in> set pre" by simp
  then have z: "?c (pre ! 0) = NInf" by (rule all)
  show ?case
    using all by (simp add: first_max_map_iff [OF nn pos] z del: set_map)
next
  case (Cons v xs)
  let ?c = "\<lambda>v. if v = NaN then NInf else v"
  let ?pre = "pre @ [v]"
  from Cons.prems(2) consider (skip) "v = NaN \<or> v = NInf" | (real) "flt (Fin f32_lowest) v"
    by auto
  then show ?case
  proof cases
    case skip
    have "first_max (map ?c (?pre @ xs)) (tf_argmax_loop 0 (Fin f32_lowest) (length ?pre) xs)"
      using Cons.prems skip by (intro Cons.IH) auto
    moreover from skip have "flt v (Fin f32_lowest) \<or> (\<not> flt v (Fin f32_lowest) \<and> \<not> flt (Fin f32_lowest) v)"
      by (auto simp: flt_def)
    ultimately show ?thesis by auto
  next
    case real
    then have lt: "fle (Fin f32_lowest) v" "\<not> fle v (Fin f32_lowest)" by (simp_all add: flt_def)
    then have v: "v \<noteq> NaN" by (simp add: fle_not_NaN)
    have vi: "v \<noteq> NInf" using lt(1) by auto
    have "first_max (map ?c (?pre @ xs)) (tf_argmax_loop (length pre) v (length ?pre) xs)"
    proof (rule tf_argmax_loop_scan)
      show "length pre < length ?pre" by simp
      show "?pre ! length pre = v" by simp
      show "v \<noteq> NaN" by (rule v)
      have "?c x = NInf" if "x \<in> set pre" for x
        using that Cons.prems(1) by auto
      moreover have "fle NInf v" using v by (rule fle_NInf)
      moreover have "fle (?c v) v" using v by (simp add: fle_refl)
      moreover have "\<not> fle v NInf" using vi by (simp add: fle_NInf_iff)
      ultimately show "\<forall>x \<in> set ?pre. fle (?c x) v"
        and "\<forall>x \<in> set (take (length pre) ?pre). \<not> fle v (?c x)"
        by simp_all
    qed
    moreover from real have "\<not> flt v (Fin f32_lowest)" by (simp add: flt_def)
    ultimately show ?thesis using real by simp
  qed
qed

lemma tf_argmax_first_max:
  assumes "p \<noteq> []" and "\<forall>v \<in> set p. v = NaN \<or> v = NInf \<or> flt (Fin f32_lowest) v"
  shows "\<exists>d. tf_argmax p = Inr d \<and> first_max (map (\<lambda>v. if v = NaN then NInf else v) p) d"
  using tf_argmax_loop_initial [of "[]" p] assms by (simp add: tf_argmax_def)

text \<open>
  C8: compilation binds the Adam optimizer with learning rate 0.001, the sparse categorical
  cross-entropy computed from logits, and the sparse categorical accuracy. On a logit
  vector the loss is the negative log of the softmax probability of the label. The
  accuracy of an example is 1 when \<^verbatim>\<open>tf.argmax\<close> of the prediction is the label and 0
  otherwise. For every non-empty prediction whose entries are NaN, \<open>-\<infinity>\<close> or above the
  lowest finite \<^verbatim>\<open>float32\<close>, that argmax is the first greatest entry, a NaN counting as
  \<open>-\<infinity>\<close>; so when no entry is a NaN the accuracy is 1 exactly when the label is the first
  position whose value no other exceeds.
\<close>

theorem compile_binding:
  "optimizer model_compile = Adam (1 / 1000)
   \<and> learning_rate (optimizer model_compile) = 1 / 1000
   \<and> loss model_compile = SparseCategoricalCrossentropy True
   \<and> metrics model_compile = [SparseCategoricalAccuracy]
   \<and> (y < length z \<longrightarrow> loss_value (loss model_compile) y z = - ln (softmax z ! y))
   \<and> list_all (\<lambda>m. metric_value m y p = (if tf_argmax p = Inr y then 1 else 0))
        (metrics model_compile)
   \<and> (p \<noteq> [] \<and> list_all (\<lambda>v. v = NaN \<or> v = NInf \<or> flt (Fin f32_lowest) v) p \<longrightarrow>
        (list_all (\<lambda>m. metric_value m y p = 1) (metrics model_compile)
           \<longleftrightarrow> first_max (map (\<lambda>v. if v = NaN then NInf else v) p) y))
   \<and> (p \<noteq> [] \<and> list_all (\<lambda>v. v = NInf \<or> flt (Fin f32_lowest) v) p \<longrightarrow>
        (list_all (\<lambda>m. metric_value m y p = 1) (metrics model_compile) \<longleftrightarrow> first_max p y))"
proof -
  let ?c = "\<lambda>v. if v = NaN then NInf else v"
  have acc: "metric_value SparseCategoricalAccuracy y p = 1 \<longleftrightarrow> first_max (map ?c p) y"
    if "p \<noteq> []" and "list_all (\<lambda>v. v = NaN \<or> v = NInf \<or> flt (Fin f32_lowest) v) p"
  proof -
    from that(2) have "\<forall>v \<in> set p. v = NaN \<or> v = NInf \<or> flt (Fin f32_lowest) v"
      by (simp add: list_all_iff)
    from tf_argmax_first_max [OF that(1) this]
    obtain d where d: "tf_argmax p = Inr d" "first_max (map ?c p) d"
      by blast
    show ?thesis
      using d first_max_unique [of "map ?c p" d y] by auto
  qed
  have acc': "metric_value SparseCategoricalAccuracy y p = 1 \<longleftrightarrow> first_max p y"
    if ne: "p \<noteq> []" and r: "list_all (\<lambda>v. v = NInf \<or> flt (Fin f32_lowest) v) p"
  proof -
    from r have a: "\<forall>v \<in> set p. v = NInf \<or> flt (Fin f32_lowest) v"
      by (simp add: list_all_iff)
    then have "\<forall>v \<in> set p. v \<noteq> NaN" by (auto simp: flt_NaN)
    then have e: "map ?c p = p" by (simp add: map_idI)
    from a have "list_all (\<lambda>v. v = NaN \<or> v = NInf \<or> flt (Fin f32_lowest) v) p"
      by (auto simp: list_all_iff)
    from acc [OF ne this] e show ?thesis by simp
  qed
  show ?thesis
    using loss_from_logits [of y z] acc acc' by (simp add: model_compile_def)
qed

theorem compile_binding_witness:
  "(0 :: nat) < length [0, 0 :: real]
   \<and> loss_value (loss model_compile) 0 [0, 0] = - ln (softmax [0, 0] ! 0)
   \<and> [Fin 1, NaN, Fin 5] \<noteq> []
   \<and> list_all (\<lambda>v. v = NaN \<or> v = NInf \<or> flt (Fin f32_lowest) v) [Fin 1, NaN, Fin 5]
   \<and> (list_all (\<lambda>m. metric_value m 2 [Fin 1, NaN, Fin 5] = 1) (metrics model_compile)
        \<longleftrightarrow> first_max (map (\<lambda>v. if v = NaN then NInf else v) [Fin 1, NaN, Fin 5]) 2)
   \<and> first_max (map (\<lambda>v. if v = NaN then NInf else v) [Fin 1, NaN, Fin 5]) 2
   \<and> list_all (\<lambda>m. metric_value m 1 [Fin 1, NaN, Fin 5] = 0) (metrics model_compile)
   \<and> [Fin 1, Fin 3, Fin 2] \<noteq> []
   \<and> list_all (\<lambda>v. v = NInf \<or> flt (Fin f32_lowest) v) [Fin 1, Fin 3, Fin 2]
   \<and> (list_all (\<lambda>m. metric_value m 1 [Fin 1, Fin 3, Fin 2] = 1) (metrics model_compile)
        \<longleftrightarrow> first_max [Fin 1, Fin 3, Fin 2] 1)
   \<and> first_max [Fin 1, Fin 3, Fin 2] 1"
proof -
  note inst1 = compile_binding [where y = 0 and z = "[0, 0]" and p = "[Fin 1, Fin 3, Fin 2]"]
  note inst2 = compile_binding [where y = 1 and z = "[0, 0]" and p = "[Fin 1, Fin 3, Fin 2]"]
  note inst3 = compile_binding [where y = 2 and z = "[0, 0]" and p = "[Fin 1, NaN, Fin 5]"]
  note inst4 = compile_binding [where y = 1 and z = "[0, 0]" and p = "[Fin 1, NaN, Fin 5]"]
  have low: "f32_lowest < 1" "f32_lowest < 2" "f32_lowest < 3" "f32_lowest < 5"
    by (simp_all add: f32_lowest_def)
  have a: "(0 :: nat) < length [0, 0 :: real]" by simp
  have b: "[Fin 1, Fin 3, Fin 2] \<noteq> []" by simp
  have b': "[Fin 1, NaN, Fin 5] \<noteq> []" by simp
  have r: "list_all (\<lambda>v. v = NInf \<or> flt (Fin f32_lowest) v) [Fin 1, Fin 3, Fin 2]"
    using low by (simp add: flt_def)
  have r': "list_all (\<lambda>v. v = NaN \<or> v = NInf \<or> flt (Fin f32_lowest) v) [Fin 1, NaN, Fin 5]"
    using low by (simp add: flt_def)
  from inst1 a have l: "loss_value (loss model_compile) 0 [0, 0] = - ln (softmax [0, 0] ! 0)"
    by blast
  from inst2 b r have m: "list_all (\<lambda>m. metric_value m 1 [Fin 1, Fin 3, Fin 2] = 1)
      (metrics model_compile) \<longleftrightarrow> first_max [Fin 1, Fin 3, Fin 2] 1"
    by blast
  from inst3 b' r' have m': "list_all (\<lambda>m. metric_value m 2 [Fin 1, NaN, Fin 5] = 1)
      (metrics model_compile)
      \<longleftrightarrow> first_max (map (\<lambda>v. if v = NaN then NInf else v) [Fin 1, NaN, Fin 5]) 2"
    by blast
  have f: "first_max [Fin 1, Fin 3, Fin 2] 1"
    by (simp add: first_max_def)
  have f': "first_max (map (\<lambda>v. if v = NaN then NInf else v) [Fin 1, NaN, Fin 5]) 2"
    by (simp add: first_max_def)
  have g: "\<not> first_max (map (\<lambda>v. if v = NaN then NInf else v) [Fin 1, NaN, Fin 5]) 1"
    by (simp add: first_max_def)
  from inst4 b' r' have "list_all (\<lambda>m. metric_value m 1 [Fin 1, NaN, Fin 5] = 1)
      (metrics model_compile)
      \<longleftrightarrow> first_max (map (\<lambda>v. if v = NaN then NInf else v) [Fin 1, NaN, Fin 5]) 1"
    by blast
  with g have "\<not> list_all (\<lambda>m. metric_value m 1 [Fin 1, NaN, Fin 5] = 1)
      (metrics model_compile)"
    by blast
  then have n: "list_all (\<lambda>m. metric_value m 1 [Fin 1, NaN, Fin 5] = 0)
      (metrics model_compile)"
    by (simp add: model_compile_def split: if_splits)
  show ?thesis
    by (intro conjI a l b b' r r' m m' f f' n)
qed

section \<open>Properties of training\<close>

subsection \<open>Comparisons\<close>

lemma flt_Fin: "flt (Fin a) (Fin b) \<longleftrightarrow> a < b"
  by (auto simp: flt_def)

lemma flt_irrefl_add: "0 \<le> d \<Longrightarrow> \<not> flt (fadd x (Fin d)) x"
  by (cases x) (simp_all add: flt_def)

lemma fle_add: "x \<noteq> NaN \<Longrightarrow> 0 \<le> d \<Longrightarrow> fle x (fadd x (Fin d))"
  by (cases x) simp_all

lemma flt_fle_trans: "flt a b \<Longrightarrow> fle b c \<Longrightarrow> flt a c"
  by (cases a; cases b; cases c) (auto simp: flt_def)

lemma fle_flt_trans: "fle a b \<Longrightarrow> flt b c \<Longrightarrow> flt a c"
  by (cases a; cases b; cases c) (auto simp: flt_def)

lemma flt_left: "flt (fadd v (Fin d)) b \<Longrightarrow> v \<noteq> NaN \<and> v \<noteq> PInf"
  by (cases v; cases b) (auto simp: flt_def)

lemma flt_PInf: "\<not> flt a PInf \<Longrightarrow> \<not> flt a x"
  by (cases a; cases x) (auto simp: flt_def)

subsection \<open>The monitor\<close>

lemma monitor_snoc: "monitor cb (vs @ [v]) = monitor_step cb (monitor cb vs) v"
  by (simp add: monitor_def)

lemma monitor_Nil: "monitor cb [] = (PInf, 0)"
  by (simp add: monitor_def)

lemma monitor_wait_step: "snd (monitor cb (vs @ [v])) \<le> Suc (snd (monitor cb vs))"
  by (cases "monitor cb vs") (simp add: monitor_snoc)

lemma monitor_props:
  "\<exists>b n. monitor cb vs = (b, n) \<and> b \<noteq> NaN
     \<and> (\<forall>v \<in> set vs. \<not> flt (fadd v (Fin \<bar>min_delta cb\<bar>)) b)
     \<and> (if b = PInf then n = length vs else n < length vs \<and> b = vs ! (length vs - 1 - n))"
proof (induction vs rule: rev_induct)
  case Nil
  then show ?case by (simp add: monitor_Nil)
next
  case (snoc v vs)
  let ?d = "Fin \<bar>min_delta cb\<bar>"
  from snoc.IH obtain b n where m: "monitor cb vs = (b, n)" and b: "b \<noteq> NaN"
    and lo: "\<forall>v \<in> set vs. \<not> flt (fadd v ?d) b"
    and at: "if b = PInf then n = length vs else n < length vs \<and> b = vs ! (length vs - 1 - n)"
    by blast
  show ?case
  proof (cases "flt (fadd v ?d) b")
    case True
    then have mon: "monitor cb (vs @ [v]) = (v, 0)"
      by (simp add: monitor_snoc m is_improvement_def)
    from True have v: "v \<noteq> NaN" "v \<noteq> PInf" by (simp_all add: flt_left)
    have "\<not> flt (fadd u ?d) v" if "u \<in> set vs" for u
    proof
      assume a: "flt (fadd u ?d) v"
      have "fle v (fadd v ?d)" using v by (simp add: fle_add)
      from flt_fle_trans [OF a this] have "flt (fadd u ?d) (fadd v ?d)" .
      moreover from True have "fle (fadd v ?d) b" by (simp add: flt_def)
      ultimately have "flt (fadd u ?d) b" by (rule flt_fle_trans)
      with lo that show False by blast
    qed
    moreover have "\<not> flt (fadd v ?d) v" by (simp add: flt_irrefl_add)
    ultimately have "\<forall>u \<in> set (vs @ [v]). \<not> flt (fadd u ?d) v" by simp
    with mon v show ?thesis by simp
  next
    case False
    then have mon: "monitor cb (vs @ [v]) = (b, Suc n)"
      by (simp add: monitor_snoc m is_improvement_def)
    have lo': "\<forall>u \<in> set (vs @ [v]). \<not> flt (fadd u ?d) b"
      using lo False by simp
    have at': "if b = PInf then Suc n = length (vs @ [v])
               else Suc n < length (vs @ [v]) \<and> b = (vs @ [v]) ! (length (vs @ [v]) - 1 - Suc n)"
    proof (cases "b = PInf")
      case True
      with at show ?thesis by simp
    next
      case nb: False
      with at have n: "n < length vs" and e: "b = vs ! (length vs - 1 - n)" by simp_all
      have "length vs - Suc n < length vs" using n by arith
      then show ?thesis using nb n e by (simp add: nth_append)
    qed
    from mon b lo' at' show ?thesis by blast
  qed
qed

subsection \<open>The epoch loop\<close>

lemma epoch_step:
  fixes st :: "('w, 'o) fit_state" and w :: 'w and opt :: 'o
  assumes inv: "fit_inv vl st" and run: "\<not> stop_training st"
    and e: "length (history st) = e"
  defines "st1 \<equiv> st\<lparr>model_weights := w, other_state := opt, history := history st @ [vl w]\<rparr>"
  defines "st2 \<equiv> on_epoch_end early_stopping e (vl w) st1"
  shows "fit_inv vl st2 \<and> history st2 = history st @ [vl w]"
proof -
  let ?h = "history st @ [vl w]"
  from inv have mon: "monitor early_stopping (history st) = (best st, wait st)"
    and bw: "case best_weights st of None \<Rightarrow> history st = []
       | Some w \<Rightarrow> history st \<noteq> []
           \<and> vl w = history st ! (length (history st) - 1 - wait st)"
    and stop: "stop_training st \<longleftrightarrow> 5 \<le> wait st"
    and pre: "\<forall>k. 0 < k \<and> k < length (history st) \<longrightarrow>
          snd (monitor early_stopping (take k (history st))) < 5"
    by (simp_all add: fit_inv_def)
  from run stop have w5: "wait st < 5" by simp
  from monitor_props [of early_stopping "history st"] mon
  have wl: "wait st \<le> length (history st)"
    by (auto split: if_splits)
  have pre': "\<forall>k. 0 < k \<and> k < length ?h \<longrightarrow>
          snd (monitor early_stopping (take k ?h)) < 5"
  proof (intro allI impI)
    fix k assume k: "0 < k \<and> k < length ?h"
    show "snd (monitor early_stopping (take k ?h)) < 5"
    proof (cases "k < length (history st)")
      case True
      with k pre show ?thesis by simp
    next
      case False
      with k have "k = length (history st)" by simp
      then show ?thesis using mon w5 by simp
    qed
  qed
  text \<open>The best weights after the initialization at the first epoch.\<close>
  define bw1 where "bw1 = (if best_weights st = None then Some w else best_weights st)"
  have keep: "case bw1 of None \<Rightarrow> ?h = []
      | Some w' \<Rightarrow> ?h \<noteq> [] \<and> vl w' = ?h ! (length ?h - 1 - Suc (wait st))"
  proof (cases "best_weights st")
    case None
    with bw have "history st = []" by simp
    with None show ?thesis by (simp add: bw1_def)
  next
    case (Some w')
    with bw have ne: "history st \<noteq> []"
      and at: "vl w' = history st ! (length (history st) - 1 - wait st)"
      by simp_all
    have "length (history st) - 1 - wait st < length (history st)"
      using ne by (cases "history st") simp_all
    then have "?h ! (length ?h - 1 - Suc (wait st)) = history st ! (length (history st) - 1 - wait st)"
      by (simp add: nth_append)
    with Some at show ?thesis by (simp add: bw1_def)
  qed
  show ?thesis
  proof (cases "is_improvement early_stopping (vl w) (best st)")
    case True
    then have st2: "st2 = st1\<lparr>best_weights := Some w, wait := 0, best := vl w\<rparr>"
      by (simp add: st2_def st1_def on_epoch_end_def early_stopping_def Let_def)
    have "monitor early_stopping ?h = (vl w, 0)"
      using True by (simp add: monitor_snoc mon)
    then show ?thesis
      using run pre' by (simp add: st2 st1_def fit_inv_def)
  next
    case False
    have m: "monitor early_stopping ?h = (best st, Suc (wait st))"
      using False by (simp add: monitor_snoc mon)
    show ?thesis
    proof (cases "5 \<le> Suc (wait st)")
      case True
      with wl e have epos: "0 < e" by simp
      from True have st2: "st2 = st1\<lparr>best_weights := bw1, wait := Suc (wait st),
          stopped_epoch := e, stop_training := True\<rparr>"
        using False epos
        by (simp add: st2_def st1_def on_epoch_end_def early_stopping_def Let_def bw1_def)
      show ?thesis
        using True m pre' keep by (simp add: st2 st1_def fit_inv_def cong: option.case_cong)
    next
      case nostop: False
      then have st2: "st2 = st1\<lparr>best_weights := bw1, wait := Suc (wait st)\<rparr>"
        using False
        by (simp add: st2_def st1_def on_epoch_end_def early_stopping_def Let_def bw1_def)
      show ?thesis
        using nostop run m pre' keep by (simp add: st2 st1_def fit_inv_def cong: option.case_cong)
    qed
  qed
qed

lemma fit_loop_inv:
  fixes st :: "('w, 'o) fit_state"
  assumes "fit_inv vl st" and "\<not> stop_training st" and "length (history st) = e"
  shows "fit_inv vl (fit_loop early_stopping tr vl n e st)
     \<and> length (history (fit_loop early_stopping tr vl n e st)) \<le> e + n
     \<and> (\<not> stop_training (fit_loop early_stopping tr vl n e st) \<longrightarrow>
          length (history (fit_loop early_stopping tr vl n e st)) = e + n)
     \<and> (0 < n \<longrightarrow> history (fit_loop early_stopping tr vl n e st) \<noteq> [])"
  using assms
proof (induction n arbitrary: e st)
  case 0
  then show ?case by simp
next
  case (Suc n)
  obtain w opt where tr: "tr e (model_weights st, other_state st) = (w, opt)"
    by (cases "tr e (model_weights st, other_state st)")
  define st2 where "st2 = on_epoch_end early_stopping e (vl w)
      (st\<lparr>model_weights := w, other_state := opt, history := history st @ [vl w]\<rparr>)"
  from epoch_step [OF Suc.prems, of w opt]
  have inv2: "fit_inv vl st2" and h2: "history st2 = history st @ [vl w]"
    by (simp_all add: st2_def)
  have unfold: "fit_loop early_stopping tr vl (Suc n) e st =
      (if stop_training st2 then st2 else fit_loop early_stopping tr vl n (Suc e) st2)"
    by (simp add: tr st2_def Let_def)
  show ?case
  proof (cases "stop_training st2")
    case True
    then show ?thesis
      unfolding unfold using inv2 h2 Suc.prems(3) by simp
  next
    case False
    have len: "length (history st2) = Suc e"
      using h2 Suc.prems(3) by simp
    from Suc.IH [OF inv2 False len] False h2 show ?thesis
      unfolding unfold by auto
  qed
qed

lemma initial_inv: "fit_inv vl (initial_state w opt)"
  by (simp add: fit_inv_def initial_state_def monitor_Nil)

text \<open>Putting the best weights back changes the weights of the model only.\<close>

lemma on_train_end_fields:
  "history (on_train_end cb st) = history st"
  "stop_training (on_train_end cb st) = stop_training st"
  "best_weights (on_train_end cb st) = best_weights st"
  "best (on_train_end cb st) = best st"
  "wait (on_train_end cb st) = wait st"
  by (simp_all add: on_train_end_def split: option.splits)

lemma on_train_end_weights:
  "best_weights st = Some w \<Longrightarrow> model_weights (on_train_end early_stopping st) = w"
  by (simp add: on_train_end_def early_stopping_def)

subsection \<open>Example runs\<close>

lemma plateau_run:
  "model_fit plateau_train plateau_val_loss 0 () =
     \<lparr>model_weights = 1, other_state = (),
      history = [Fin 1, Fin (9995 / 10000), Fin 2, Fin 2, Fin 2, Fin 2], wait = 5,
      best = Fin 1, best_weights = Some 1, stopped_epoch = 5, stop_training = True\<rparr>"
  by code_simp

lemma nan_run:
  "model_fit plateau_train nan_val_loss 0 () =
     \<lparr>model_weights = 1, other_state = (),
      history = [NaN, NaN, NaN, NaN, NaN], wait = 5,
      best = PInf, best_weights = Some 1, stopped_epoch = 4, stop_training = True\<rparr>"
  by code_simp

lemma descending_loop:
  fixes st :: "(nat, unit) fit_state"
  assumes "model_weights st = e" and "\<not> stop_training st" and "length (history st) = e"
    and "best st = (if e = 0 then PInf else Fin (- real e))"
  shows "\<not> stop_training (fit_loop early_stopping plateau_train descending_val_loss n e st)
     \<and> length (history (fit_loop early_stopping plateau_train descending_val_loss n e st)) = e + n"
  using assms
proof (induction n arbitrary: e st)
  case 0
  then show ?case by simp
next
  case (Suc n)
  define st1 where "st1 = st\<lparr>model_weights := Suc e, other_state := other_state st,
      history := history st @ [Fin (- real (Suc e))]\<rparr>"
  define st2 where "st2 = on_epoch_end early_stopping e (Fin (- real (Suc e))) st1"
  have imp: "is_improvement early_stopping (Fin (- real (Suc e))) (best st)"
    using Suc.prems(4) by (simp add: is_improvement_def early_stopping_def flt_def)
  then have fields: "model_weights st2 = Suc e" "stop_training st2 = stop_training st"
    "history st2 = history st @ [Fin (- real (Suc e))]" "best st2 = Fin (- real (Suc e))"
    by (simp_all add: st2_def st1_def on_epoch_end_def Let_def)
  have unfold: "fit_loop early_stopping plateau_train descending_val_loss (Suc n) e st =
      (if stop_training st2 then st2
       else fit_loop early_stopping plateau_train descending_val_loss n (Suc e) st2)"
    using Suc.prems(1)
    by (simp add: plateau_train_def descending_val_loss_def st2_def st1_def Let_def)
  have "\<not> stop_training (fit_loop early_stopping plateau_train descending_val_loss n (Suc e) st2)
     \<and> length (history (fit_loop early_stopping plateau_train descending_val_loss n (Suc e) st2))
         = Suc e + n"
    using fields Suc.prems(2,3) by (intro Suc.IH) simp_all
  then show ?case
    unfolding unfold using fields Suc.prems(2) by simp
qed

lemma descending_run:
  "\<not> stop_training (model_fit plateau_train descending_val_loss 0 ())
   \<and> length (history (model_fit plateau_train descending_val_loss 0 ())) = 100"
  using descending_loop [of "initial_state 0 ()" 0 100]
  by (simp add: model_fit_def epochs_def on_train_end_fields initial_state_def)

text \<open>
  C1, as the code has it: a run of the training cell yields at least one and at most 100
  epochs. It is stopped early exactly when the monitor has counted 5 epochs in a row that
  did not lower the validation loss by more than 0.001 below the monitored best value, and
  it never continues past such an epoch; a run that is not stopped early has 100 epochs.
  In every run, stopped early or not, the model ends with the stored best weights: those
  of the last epoch that lowered the monitored best by more than 0.001 (of the first epoch
  when none did), which lies as many epochs back as the monitor has counted. Their
  validation loss is the monitored best value, and no validation loss observed in the run
  is lower than it by more than 0.001.
\<close>

theorem early_stopping_run:
  "let r = model_fit train_epoch val_loss w0 opt0;
       m = monitor early_stopping (history r) in
     history r \<noteq> [] \<and> length (history r) \<le> 100
   \<and> (stop_training r \<longleftrightarrow> 5 \<le> snd m)
   \<and> (\<forall>k. 0 < k \<and> k < length (history r) \<longrightarrow>
          snd (monitor early_stopping (take k (history r))) < 5)
   \<and> (\<not> stop_training r \<longrightarrow> length (history r) = 100)
   \<and> snd m \<le> 5 \<and> snd m \<le> length (history r)
   \<and> best_weights r = Some (model_weights r)
   \<and> val_loss (model_weights r) = history r ! (length (history r) - 1 - snd m)
   \<and> val_loss (model_weights r) \<in> set (history r)
   \<and> (fst m \<noteq> PInf \<longrightarrow> snd m < length (history r) \<and> val_loss (model_weights r) = fst m)
   \<and> (\<forall>v \<in> set (history r). \<not> flt (fadd v (Fin (1 / 1000))) (val_loss (model_weights r)))
   \<and> (\<forall>x b. Fin x \<in> set (history r) \<and> val_loss (model_weights r) = Fin b \<longrightarrow>
          b \<le> x + 1 / 1000)"
proof -
  define q where "q = fit_loop early_stopping train_epoch val_loss epochs 0 (initial_state w0 opt0)"
  define r where "r = model_fit train_epoch val_loss w0 opt0"
  define m where "m = monitor early_stopping (history r)"
  have rq: "r = on_train_end early_stopping q"
    by (simp add: r_def q_def model_fit_def)
  have init: "\<not> stop_training (initial_state w0 opt0)"
    "length (history (initial_state w0 opt0)) = 0"
    by (simp_all add: initial_state_def)
  from fit_loop_inv [OF initial_inv init, of val_loss train_epoch 100]
  have inv: "fit_inv val_loss q" and len_q: "length (history q) \<le> 100"
    and cap_q: "\<not> stop_training q \<longrightarrow> length (history q) = 100"
    and ne_q: "history q \<noteq> []"
    by (simp_all add: q_def epochs_def)
  have same: "history r = history q" "stop_training r = stop_training q"
    "best_weights r = best_weights q" "best r = best q" "wait r = wait q"
    by (simp_all add: rq on_train_end_fields)
  from len_q cap_q ne_q have len: "length (history r) \<le> 100"
    and cap: "\<not> stop_training r \<longrightarrow> length (history r) = 100"
    and ne: "history r \<noteq> []"
    by (simp_all add: same)
  from inv have mon: "m = (best r, wait r)"
    and bw: "case best_weights q of None \<Rightarrow> history q = []
       | Some w \<Rightarrow> history q \<noteq> []
           \<and> val_loss w = history q ! (length (history q) - 1 - wait q)"
    and stop: "stop_training r \<longleftrightarrow> 5 \<le> wait r"
    and pre: "\<forall>k. 0 < k \<and> k < length (history r) \<longrightarrow>
          snd (monitor early_stopping (take k (history r))) < 5"
    by (simp_all add: fit_inv_def same m_def)
  from bw ne_q obtain w where w: "best_weights q = Some w"
    and at_q: "val_loss w = history q ! (length (history q) - 1 - wait q)"
    by (cases "best_weights q") simp_all
  have mw: "model_weights r = w"
    unfolding rq using w by (rule on_train_end_weights)
  have bwr: "best_weights r = Some (model_weights r)"
    using w mw by (simp add: same)
  have at: "val_loss (model_weights r) = history r ! (length (history r) - 1 - snd m)"
    using at_q mw by (simp add: same mon)
  have "length (history r) - 1 - snd m < length (history r)"
    using ne by (cases "history r") simp_all
  with at have mem: "val_loss (model_weights r) \<in> set (history r)"
    by simp
  from monitor_props [of early_stopping "history r"]
  have lo: "\<forall>v \<in> set (history r). \<not> flt (fadd v (Fin (1 / 1000))) (fst m)"
    and ix: "if fst m = PInf then snd m = length (history r)
             else snd m < length (history r)
               \<and> fst m = history r ! (length (history r) - 1 - snd m)"
    by (auto simp: m_def early_stopping_def)
  from ix have wl: "snd m \<le> length (history r)"
    by (simp split: if_splits)
  from ix at have fin: "fst m \<noteq> PInf \<longrightarrow>
      snd m < length (history r) \<and> val_loss (model_weights r) = fst m"
    by (auto split: if_splits)
  have w5: "snd m \<le> 5"
  proof (cases "length (history r) = 1")
    case True
    with wl show ?thesis by simp
  next
    case False
    with ne have k: "0 < length (history r) - 1" "length (history r) - 1 < length (history r)"
      by (cases "history r"; simp)+
    with pre have "snd (monitor early_stopping (take (length (history r) - 1) (history r))) < 5"
      by blast
    moreover have "history r = take (length (history r) - 1) (history r) @ [last (history r)]"
      using ne by (metis append_butlast_last_id butlast_conv_take)
    ultimately show ?thesis
      using monitor_wait_step [of early_stopping
          "take (length (history r) - 1) (history r)" "last (history r)"]
      by (simp add: m_def)
  qed
  have bound: "\<not> flt (fadd v (Fin (1 / 1000))) (val_loss (model_weights r))"
    if "v \<in> set (history r)" for v
  proof (cases "fst m = PInf")
    case True
    with lo that have "\<not> flt (fadd v (Fin (1 / 1000))) PInf" by auto
    then show ?thesis by (rule flt_PInf)
  next
    case False
    with fin lo that show ?thesis by auto
  qed
  have bound': "b \<le> x + 1 / 1000"
    if "Fin x \<in> set (history r) \<and> val_loss (model_weights r) = Fin b" for x b
  proof -
    from that bound [of "Fin x"] have "\<not> flt (Fin (x + 1 / 1000)) (Fin b)" by simp
    then show ?thesis by (simp add: flt_Fin)
  qed
  have stop_iff: "stop_training r \<longleftrightarrow> 5 \<le> snd m"
    using stop mon by simp
  show ?thesis
    unfolding r_def [symmetric] Let_def m_def [symmetric]
    using ne len stop_iff pre cap w5 wl bwr at mem fin bound bound' by blast
qed

theorem early_stopping_run_witness:
  "stop_training (model_fit plateau_train plateau_val_loss 0 ())
   \<and> length (history (model_fit plateau_train plateau_val_loss 0 ())) = 6
   \<and> monitor early_stopping (history (model_fit plateau_train plateau_val_loss 0 ())) = (Fin 1, 5)
   \<and> best_weights (model_fit plateau_train plateau_val_loss 0 ()) =
       Some (model_weights (model_fit plateau_train plateau_val_loss 0 ()))
   \<and> plateau_val_loss (model_weights (model_fit plateau_train plateau_val_loss 0 ())) =
       history (model_fit plateau_train plateau_val_loss 0 ()) ! 0
   \<and> Fin (9995 / 10000) \<in> set (history (model_fit plateau_train plateau_val_loss 0 ()))
   \<and> plateau_val_loss (model_weights (model_fit plateau_train plateau_val_loss 0 ())) = Fin 1
   \<and> (1 :: real) \<le> 9995 / 10000 + 1 / 1000
   \<and> \<not> stop_training (model_fit plateau_train descending_val_loss 0 ())
   \<and> length (history (model_fit plateau_train descending_val_loss 0 ())) = 100
   \<and> stop_training (model_fit plateau_train nan_val_loss 0 ())
   \<and> length (history (model_fit plateau_train nan_val_loss 0 ())) = 5
   \<and> monitor early_stopping (history (model_fit plateau_train nan_val_loss 0 ())) = (PInf, 5)
   \<and> nan_val_loss (model_weights (model_fit plateau_train nan_val_loss 0 ())) =
       history (model_fit plateau_train nan_val_loss 0 ()) ! 0"
proof -
  define r where "r = model_fit plateau_train plateau_val_loss 0 ()"
  define m where "m = monitor early_stopping (history r)"
  define r' where "r' = model_fit plateau_train descending_val_loss 0 ()"
  define r'' where "r'' = model_fit plateau_train nan_val_loss 0 ()"
  define m'' where "m'' = monitor early_stopping (history r'')"
  note run = early_stopping_run [of plateau_train plateau_val_loss 0 "()",
      unfolded Let_def, folded r_def, folded m_def]
  note run' = early_stopping_run [of plateau_train descending_val_loss 0 "()",
      unfolded Let_def, folded r'_def]
  note run'' = early_stopping_run [of plateau_train nan_val_loss 0 "()",
      unfolded Let_def, folded r''_def, folded m''_def]
  have stop: "stop_training r"
    by (simp add: r_def plateau_run)
  have len: "length (history r) = 6"
    by (simp add: r_def plateau_run)
  have fst: "fst m = Fin 1"
    by (simp add: m_def r_def plateau_run monitor_def is_improvement_def early_stopping_def
        flt_def)
  from run stop have five: "5 \<le> snd m" by blast
  from run have "snd m \<le> 5" by blast
  with five have snd: "snd m = 5" by simp
  from fst snd have mon: "m = (Fin 1, 5)" by (cases m) simp
  from run have bw: "best_weights r = Some (model_weights r)" by blast
  from run have "plateau_val_loss (model_weights r) = history r ! (length (history r) - 1 - snd m)"
    by blast
  with len snd have at: "plateau_val_loss (model_weights r) = history r ! 0" by simp
  from fst have "fst m \<noteq> PInf" by simp
  with run have "plateau_val_loss (model_weights r) = fst m" by blast
  with fst have val: "plateau_val_loss (model_weights r) = Fin 1" by simp
  have mem: "Fin (9995 / 10000) \<in> set (history r)"
    by (simp add: r_def plateau_run)
  from run mem val have le: "(1 :: real) \<le> 9995 / 10000 + 1 / 1000" by blast
  have nostop: "\<not> stop_training r'"
    by (simp add: r'_def descending_run)
  with run' have len': "length (history r') = 100" by blast
  have stop'': "stop_training r''"
    by (simp add: r''_def nan_run)
  have len'': "length (history r'') = 5"
    by (simp add: r''_def nan_run)
  have fst'': "fst m'' = PInf"
    by (simp add: m''_def r''_def nan_run monitor_def is_improvement_def flt_def)
  from run'' stop'' have "5 \<le> snd m''" by blast
  moreover from run'' have "snd m'' \<le> 5" by blast
  ultimately have snd'': "snd m'' = 5" by simp
  from fst'' snd'' have mon'': "m'' = (PInf, 5)" by (cases m'') simp
  from run'' have "nan_val_loss (model_weights r'') = history r'' ! (length (history r'') - 1 - snd m'')"
    by blast
  with len'' snd'' have at'': "nan_val_loss (model_weights r'') = history r'' ! 0" by simp
  show ?thesis
    using stop len mon bw at mem val le nostop len' stop'' len'' mon'' at''
    unfolding r_def r'_def r''_def m_def m''_def by blast
qed

text \<open>
  The retained weights can be worse than the best observed: in the example run the second
  epoch lowers the validation loss by less than \<^verbatim>\<open>min_delta\<close>, so the weights of the
  first epoch (loss 1) are restored although the loss 0.9995 was observed.
\<close>

theorem retained_parameters_worse_than_best_observed:
  "stop_training (model_fit plateau_train plateau_val_loss 0 ())
   \<and> history (model_fit plateau_train plateau_val_loss 0 ()) =
       [Fin 1, Fin (9995 / 10000), Fin 2, Fin 2, Fin 2, Fin 2]
   \<and> plateau_val_loss (model_weights (model_fit plateau_train plateau_val_loss 0 ())) = Fin 1
   \<and> Fin (9995 / 10000) \<in> set (history (model_fit plateau_train plateau_val_loss 0 ()))
   \<and> flt (Fin (9995 / 10000))
        (plateau_val_loss (model_weights (model_fit plateau_train plateau_val_loss 0 ())))"
  by (simp add: plateau_run plateau_val_loss_def flt_def)

end
